theory Spec2Isabelle
  imports Complex_Main
begin

section \<open>The Weighted Product ranking of \<^verbatim>\<open>app.py\<close>\<close>

text \<open>
  The development embeds \<^verbatim>\<open>weighted_product\<close> of \<^verbatim>\<open>src/app.py\<close> (lines 9 to 50), the
  only routine of the repository with domain logic. The routine computes on NumPy arrays
  of \<^verbatim>\<open>float64\<close> and sorts with pandas; both are modelled as far as the routine uses
  them.
\<close>

subsection \<open>Floating-point values\<close>

text \<open>
  A \<^verbatim>\<open>float64\<close> is modelled by a real number or one of the three special values of
  IEEE 754. Finite arithmetic is exact: rounding, overflow and underflow are left out, and
  the negative zero is identified with zero. The special values follow IEEE 754 (and C99
  \<^verbatim>\<open>pow\<close>), because the routine reaches them on inputs it does not reject: NumPy
  divides by zero with a warning, not with an exception.
\<close>

datatype npfloat = Fin real | PInf | NInf | NaN

fun np_isnan :: "npfloat \<Rightarrow> bool" where
  "np_isnan NaN = True"
| "np_isnan _ = False"

text \<open>The sign of a value that is not NaN, and the infinity (or NaN) of a sign.\<close>

fun np_sign :: "npfloat \<Rightarrow> real" where
  "np_sign (Fin a) = sgn a"
| "np_sign PInf = 1"
| "np_sign NInf = - 1"
| "np_sign NaN = 0"

definition inf_of_sign :: "real \<Rightarrow> npfloat" where
  "inf_of_sign s = (if 0 < s then PInf else if s < 0 then NInf else NaN)"

fun np_neg :: "npfloat \<Rightarrow> npfloat" where
  "np_neg (Fin a) = Fin (- a)"
| "np_neg PInf = NInf"
| "np_neg NInf = PInf"
| "np_neg NaN = NaN"

fun np_add :: "npfloat \<Rightarrow> npfloat \<Rightarrow> npfloat" where
  "np_add (Fin a) (Fin b) = Fin (a + b)"
| "np_add NaN _ = NaN"
| "np_add _ NaN = NaN"
| "np_add PInf NInf = NaN"
| "np_add NInf PInf = NaN"
| "np_add PInf _ = PInf"
| "np_add _ PInf = PInf"
| "np_add NInf _ = NInf"
| "np_add _ NInf = NInf"

fun np_mul :: "npfloat \<Rightarrow> npfloat \<Rightarrow> npfloat" where
  "np_mul (Fin a) (Fin b) = Fin (a * b)"
| "np_mul NaN _ = NaN"
| "np_mul _ NaN = NaN"
| "np_mul x y = inf_of_sign (np_sign x * np_sign y)"

text \<open>
  Division: a finite value over zero is an infinity of its sign, and zero over zero is NaN;
  a finite value over an infinity is zero; an infinity over an infinity is NaN.
\<close>

fun np_div :: "npfloat \<Rightarrow> npfloat \<Rightarrow> npfloat" where
  "np_div (Fin a) (Fin b) = (if b = 0 then inf_of_sign a else Fin (a / b))"
| "np_div NaN _ = NaN"
| "np_div _ NaN = NaN"
| "np_div (Fin a) _ = Fin 0"
| "np_div x (Fin b) = inf_of_sign (np_sign x * (if b < 0 then - 1 else 1))"
| "np_div _ _ = NaN"

text \<open>
  The power \<^verbatim>\<open>x ** y\<close> of C99: anything to the power zero is one and one to any power is
  one, also for NaN; a negative base has a real power for integer exponents only; zero to
  a negative power is infinite.
\<close>

definition is_integer :: "real \<Rightarrow> bool" where
  "is_integer b = (of_int \<lfloor>b\<rfloor> = b)"

definition is_odd_integer :: "real \<Rightarrow> bool" where
  "is_odd_integer b = (is_integer b \<and> odd \<lfloor>b\<rfloor>)"

definition fin_pow :: "real \<Rightarrow> real \<Rightarrow> npfloat" where
  "fin_pow a b =
     (if 0 < a then Fin (a powr b)
      else if a = 0 then (if 0 < b then Fin 0 else PInf)
      else if is_odd_integer b then Fin (- (\<bar>a\<bar> powr b))
      else if is_integer b then Fin (\<bar>a\<bar> powr b)
      else NaN)"

fun np_pow :: "npfloat \<Rightarrow> npfloat \<Rightarrow> npfloat" where
  "np_pow x (Fin b) =
     (if b = 0 then Fin 1
      else case x of
        Fin a \<Rightarrow> (if a = 1 then Fin 1 else fin_pow a b)
      | PInf \<Rightarrow> (if 0 < b then PInf else Fin 0)
      | NInf \<Rightarrow> (if 0 < b then (if is_odd_integer b then NInf else PInf) else Fin 0)
      | NaN \<Rightarrow> NaN)"
| "np_pow (Fin a) y =
     (if a = 1 then Fin 1
      else case y of
        PInf \<Rightarrow> (if \<bar>a\<bar> < 1 then Fin 0 else if \<bar>a\<bar> = 1 then Fin 1 else PInf)
      | NInf \<Rightarrow> (if \<bar>a\<bar> < 1 then PInf else if \<bar>a\<bar> = 1 then Fin 1 else Fin 0)
      | _ \<Rightarrow> NaN)"
| "np_pow NaN _ = NaN"
| "np_pow _ NaN = NaN"
| "np_pow _ PInf = PInf"
| "np_pow _ NInf = Fin 0"

text \<open>
  \<^verbatim>\<open>ndarray.sum()\<close> and \<^verbatim>\<open>np.prod\<close> of a one-dimensional array. In exact arithmetic the
  order of the additions does not matter; the empty sum is 0 and the empty product 1.
\<close>

primrec np_sum :: "npfloat list \<Rightarrow> npfloat" where
  "np_sum [] = Fin 0"
| "np_sum (x # xs) = np_add x (np_sum xs)"

primrec np_prod :: "npfloat list \<Rightarrow> npfloat" where
  "np_prod [] = Fin 1"
| "np_prod (x # xs) = np_mul x (np_prod xs)"

text \<open>
  \<^verbatim>\<open>np.isclose(a, b)\<close> with its default tolerances \<^verbatim>\<open>rtol=1e-05\<close>, \<^verbatim>\<open>atol=1e-08\<close> and
  \<^verbatim>\<open>equal_nan=False\<close>: finite values are compared by
  \<^verbatim>\<open>abs(a - b) <= atol + rtol * abs(b)\<close>, infinities by equality, and NaN is close to
  nothing.
\<close>

definition rtol :: real where
  "rtol = 1 / 10 ^ 5"

definition atol :: real where
  "atol = 1 / 10 ^ 8"

fun np_isclose :: "npfloat \<Rightarrow> npfloat \<Rightarrow> bool" where
  "np_isclose (Fin a) (Fin b) = (\<bar>a - b\<bar> \<le> atol + rtol * \<bar>b\<bar>)"
| "np_isclose NaN _ = False"
| "np_isclose _ NaN = False"
| "np_isclose x y = (x = y)"

subsection \<open>Strings\<close>

text \<open>
  A label is a string of code points below 256, one \<open>char\<close> for each code point; code
  points from 256 on are outside the type. On these code points \<^verbatim>\<open>str.lower\<close> maps the
  letters A to Z (65 to 90) and the capital letters 192 to 222 other than the
  multiplication sign 215 to the code point 32 higher, and leaves every other code point
  as it is. \<^verbatim>\<open>str.strip\<close> removes the leading and the trailing white space, not the white
  space inside; the white space below 256 is 9 to 13, 28 to 32, 133 and 160.
\<close>

definition char_lower :: "char \<Rightarrow> char" where
  "char_lower c =
     (let n = (of_char c :: nat)
      in if (65 \<le> n \<and> n \<le> 90) \<or> (192 \<le> n \<and> n \<le> 222 \<and> n \<noteq> 215) then char_of (n + 32) else c)"

definition py_lower :: "string \<Rightarrow> string" where
  "py_lower s = map char_lower s"

definition py_isspace :: "char \<Rightarrow> bool" where
  "py_isspace c =
     (let n = (of_char c :: nat)
      in (9 \<le> n \<and> n \<le> 13) \<or> (28 \<le> n \<and> n \<le> 32) \<or> n = 133 \<or> n = 160)"

definition py_strip :: "string \<Rightarrow> string" where
  "py_strip s = rev (dropWhile py_isspace (rev (dropWhile py_isspace s)))"

subsection \<open>The routine\<close>

text \<open>
  The exceptions Python raises inside the routine. The source has no \<^verbatim>\<open>raise\<close> of its
  own: these come from NumPy and pandas on arguments whose shapes do not fit.
\<close>

datatype error = ValueError | IndexError | AxisError

text \<open>
  Line 20, \<^verbatim>\<open>X = np.array(X, dtype=float)\<close>: the matrix is given as the list of its rows.
  Rows of different lengths are refused with a \<^verbatim>\<open>ValueError\<close>.
\<close>

definition rectangular :: "'a list list \<Rightarrow> bool" where
  "rectangular X = (\<forall>r \<in> set X. length r = length (hd X))"

definition np_array :: "npfloat list list \<Rightarrow> error + npfloat list list" where
  "np_array X = (if rectangular X then Inr X else Inl ValueError)"

text \<open>
  Lines 23 to 25: the weights are divided by their sum unless \<^verbatim>\<open>np.isclose\<close> finds the
  sum close to 1.
\<close>

definition normalize_weights :: "npfloat list \<Rightarrow> npfloat list" where
  "normalize_weights w =
     (if \<not> np_isclose (np_sum w) (Fin 1) then map (\<lambda>x. np_div x (np_sum w)) w else w)"

text \<open>
  Lines 28 to 31: the loop over \<^verbatim>\<open>enumerate(criteria_type)\<close> negates the weight of every
  criterion whose label is \<^verbatim>\<open>cost\<close> after \<^verbatim>\<open>lower\<close> and \<^verbatim>\<open>strip\<close>. Every other label leaves
  the weight as it is. Writing \<^verbatim>\<open>w_wp[j]\<close> beyond the end of the array raises
  \<^verbatim>\<open>IndexError\<close>.
\<close>

definition is_cost :: "string \<Rightarrow> bool" where
  "is_cost t = (py_strip (py_lower t) = ''cost'')"

fun negate_costs :: "nat \<Rightarrow> string list \<Rightarrow> npfloat list \<Rightarrow> error + npfloat list" where
  "negate_costs j [] w_wp = Inr w_wp"
| "negate_costs j (t # ts) w_wp =
     (if is_cost t
      then (if j < length w_wp then negate_costs (Suc j) ts (w_wp[j := np_neg (w_wp ! j)])
            else Inl IndexError)
      else negate_costs (Suc j) ts w_wp)"

text \<open>
  Line 34, \<^verbatim>\<open>X ** w_wp\<close>: NumPy broadcasts the exponent vector over the rows. The shapes
  \<^verbatim>\<open>(n, m)\<close> and \<^verbatim>\<open>(k,)\<close> fit when \<^verbatim>\<open>m = k\<close>, when \<^verbatim>\<open>k = 1\<close> (one exponent for every column)
  and when \<^verbatim>\<open>m = 1\<close> (the one column is raised to each exponent); otherwise a
  \<^verbatim>\<open>ValueError\<close> is raised. An empty list of rows is an array of one dimension, on which
  \<^verbatim>\<open>np.prod(..., axis=1)\<close> raises \<^verbatim>\<open>AxisError\<close>.
\<close>

definition pow_broadcast :: "npfloat list list \<Rightarrow> npfloat list \<Rightarrow> error + npfloat list list" where
  "pow_broadcast X w_wp =
     (if X = [] then (if length w_wp \<le> 1 then Inr [] else Inl ValueError)
      else if length (hd X) = length w_wp then Inr (map (\<lambda>row. map2 np_pow row w_wp) X)
      else if length w_wp = 1 then Inr (map (\<lambda>row. map (\<lambda>x. np_pow x (w_wp ! 0)) row) X)
      else if length (hd X) = 1 then Inr (map (\<lambda>row. map (\<lambda>e. np_pow (row ! 0) e) w_wp) X)
      else Inl ValueError)"

definition prod_axis1 :: "npfloat list list \<Rightarrow> error + npfloat list" where
  "prod_axis1 P = (if P = [] then Inl AxisError else Inr (map np_prod P))"

text \<open>Lines 37 and 38: \<^verbatim>\<open>V = S / S.sum()\<close>, with no test of the sum.\<close>

definition preference_scores :: "npfloat list \<Rightarrow> npfloat list" where
  "preference_scores S = map (\<lambda>s. np_div s (np_sum S)) S"

text \<open>
  Lines 41 to 45: the data frame of the three columns. pandas raises \<^verbatim>\<open>ValueError\<close> when
  the columns differ in length.
\<close>

record result_row =
  Alternatif :: string
  Nilai_S :: npfloat
  Nilai_V :: npfloat

definition data_frame :: "string list \<Rightarrow> npfloat list \<Rightarrow> npfloat list \<Rightarrow> error + result_row list" where
  "data_frame alternatives S V =
     (if length alternatives = length S \<and> length S = length V
      then Inr (map (\<lambda>(a, s, v). \<lparr>Alternatif = a, Nilai_S = s, Nilai_V = v\<rparr>)
                  (zip alternatives (zip S V)))
      else Inl ValueError)"

text \<open>
  Line 48, \<^verbatim>\<open>sort_values(by="Nilai_V", ascending=False)\<close>. For one sort column pandas
  computes the row order with its \<^verbatim>\<open>nargsort\<close>: the NaN keys are set apart and placed
  last (\<^verbatim>\<open>na_position='last'\<close>); for a descending order the other keys are reversed,
  sorted ascending by \<^verbatim>\<open>ndarray.argsort(kind='quicksort')\<close> (the default \<^verbatim>\<open>kind\<close>, which
  the source does not override) and the resulting order is reversed again. NumPy's
  \<^verbatim>\<open>argsort\<close> is not part of the repository; it is the parameter \<open>argsort\<close>, which maps
  an array to the list of the positions of its elements in ascending order. The final
  \<^verbatim>\<open>reset_index(drop=True)\<close> renumbers the rows and changes no column.
\<close>

definition nargsort_desc :: "(npfloat list \<Rightarrow> nat list) \<Rightarrow> npfloat list \<Rightarrow> nat list" where
  "nargsort_desc argsort items =
     (let idx = [0..<length items];
          non_nan_idx = filter (\<lambda>i. \<not> np_isnan (items ! i)) idx;
          nan_idx = filter (\<lambda>i. np_isnan (items ! i)) idx;
          non_nans = rev (map (\<lambda>i. items ! i) non_nan_idx);
          indexer = rev (map (\<lambda>k. rev non_nan_idx ! k) (argsort non_nans))
      in indexer @ nan_idx)"

definition sort_values :: "(npfloat list \<Rightarrow> nat list) \<Rightarrow> result_row list \<Rightarrow> result_row list" where
  "sort_values argsort df = map (\<lambda>i. df ! i) (nargsort_desc argsort (map Nilai_V df))"

text \<open>
  Lines 20 to 38: the two score columns \<^verbatim>\<open>S\<close> and \<^verbatim>\<open>V\<close>, in the order of the rows of
  the matrix.
\<close>

definition wp_scores ::
  "npfloat list list \<Rightarrow> npfloat list \<Rightarrow> string list \<Rightarrow> error + npfloat list \<times> npfloat list" where
  "wp_scores X weights criteria_type =
     (case np_array X of Inl e \<Rightarrow> Inl e | Inr X' \<Rightarrow>
     (case negate_costs 0 criteria_type (normalize_weights weights) of Inl e \<Rightarrow> Inl e
      | Inr w_wp \<Rightarrow>
     (case pow_broadcast X' w_wp of Inl e \<Rightarrow> Inl e | Inr P \<Rightarrow>
     (case prod_axis1 P of Inl e \<Rightarrow> Inl e | Inr S \<Rightarrow> Inr (S, preference_scores S)))))"

text \<open>
  The routine, lines 20 to 50: the scores, the data frame and its sorting. The parameter
  \<^verbatim>\<open>criteria\<close> is not used by the source.
\<close>

definition weighted_product ::
  "(npfloat list \<Rightarrow> nat list) \<Rightarrow> npfloat list list \<Rightarrow> npfloat list \<Rightarrow> string list \<Rightarrow>
   string list \<Rightarrow> string list \<Rightarrow> error + result_row list" where
  "weighted_product argsort X weights criteria_type alternatives criteria =
     (case wp_scores X weights criteria_type of Inl e \<Rightarrow> Inl e | Inr (S, V) \<Rightarrow>
     (case data_frame alternatives S V of Inl e \<Rightarrow> Inl e
      | Inr df_result \<Rightarrow> Inr (sort_values argsort df_result)))"

text \<open>
  The sorting algorithm behind \<^verbatim>\<open>argsort(kind='quicksort')\<close> depends on the build of NumPy
  and on the processor. Two of its algorithms for short arrays are given for the
  parameter. \<open>np_lt\<close> is the comparison of NumPy's sorts, which puts NaN last.

  The first one is the insertion sort of NumPy's generic \<^verbatim>\<open>quicksort\<close>, which it applies
  to an array of up to 16 elements where no vectorized sort is compiled in: each position
  in turn moves left past the positions whose elements are strictly greater. It is
  stable.
\<close>

fun np_lt :: "npfloat \<Rightarrow> npfloat \<Rightarrow> bool" where
  "np_lt (Fin a) (Fin b) = (a < b)"
| "np_lt NaN _ = False"
| "np_lt _ NaN = True"
| "np_lt NInf y = (y \<noteq> NInf)"
| "np_lt x PInf = (x \<noteq> PInf)"
| "np_lt _ _ = False"

fun insert_index :: "npfloat list \<Rightarrow> nat \<Rightarrow> nat list \<Rightarrow> nat list" where
  "insert_index v i [] = [i]"
| "insert_index v i (k # ks) =
     (if np_lt (v ! i) (v ! k) then i # k # ks else k # insert_index v i ks)"

definition insertion_argsort :: "npfloat list \<Rightarrow> nat list" where
  "insertion_argsort v = foldl (\<lambda>acc i. insert_index v i acc) [] [0..<length v]"

text \<open>
  The second one is the sorting network of NumPy's vectorized \<^verbatim>\<open>quicksort\<close> (the
  x86-simd-sort library, on processors with AVX2 or AVX-512) for an array that fits the
  first four lanes of a vector register: three rounds of compare-exchange steps on the
  lanes (0, 1) and (2, 3), then (0, 3) and (1, 2), then (0, 1) and (2, 3). A
  compare-exchange swaps the positions held by two lanes when their elements are
  strictly out of order and leaves equal elements where they are; a lane beyond the end
  of the array holds the greatest value and never moves. The network is not stable.
  Longer arrays, for which the library uses wider networks and a partitioning step, are
  sorted by insertion here; the theory evaluates the network on four elements only.
\<close>

definition compare_exchange :: "npfloat list \<Rightarrow> nat list \<Rightarrow> nat \<times> nat \<Rightarrow> nat list" where
  "compare_exchange v lanes c =
     (case c of (a, b) \<Rightarrow>
        if b < length lanes \<and> np_lt (v ! (lanes ! b)) (v ! (lanes ! a))
        then lanes[a := lanes ! b, b := lanes ! a] else lanes)"

definition network4 :: "(nat \<times> nat) list" where
  "network4 = [(0, 1), (2, 3), (0, 3), (1, 2), (0, 1), (2, 3)]"

definition network_argsort :: "npfloat list \<Rightarrow> nat list" where
  "network_argsort v =
     (if length v \<le> 4 then foldl (compare_exchange v) [0..<length v] network4
      else insertion_argsort v)"

text \<open>
  What every \<^verbatim>\<open>kind\<close> of \<^verbatim>\<open>argsort\<close> does on an array without NaN: it returns the
  positions of the array, each once, in an ascending order of their elements. A stable
  \<^verbatim>\<open>kind\<close> moreover keeps the positions of equal elements in ascending order.
\<close>

definition argsort_ok :: "(npfloat list \<Rightarrow> nat list) \<Rightarrow> bool" where
  "argsort_ok argsort =
     (\<forall>v. (\<forall>x \<in> set v. \<not> np_isnan x) \<longrightarrow>
        distinct (argsort v) \<and> set (argsort v) = {..<length v} \<and>
        sorted_wrt (\<lambda>i k. \<not> np_lt (v ! k) (v ! i)) (argsort v))"

definition argsort_stable :: "(npfloat list \<Rightarrow> nat list) \<Rightarrow> bool" where
  "argsort_stable argsort =
     (\<forall>v. (\<forall>x \<in> set v. \<not> np_isnan x) \<longrightarrow>
        sorted_wrt (\<lambda>i k. v ! i = v ! k \<longrightarrow> i < k) (argsort v))"

text \<open>
  The order in which the insertion sort leaves the positions: by their elements, and
  among equal elements by ascending position.
\<close>

definition before_stable :: "npfloat list \<Rightarrow> nat \<Rightarrow> nat \<Rightarrow> bool" where
  "before_stable v i k = (np_lt (v ! i) (v ! k) \<or> (v ! i = v ! k \<and> i < k))"

text \<open>
  The words of the specification on labels, stated without the routine's own string
  functions: the white space below code point 256, a letter and its capital, and a label
  that reads as a word of small letters when the case of its letters and the white space
  around it are ignored.
\<close>

definition white_space :: "char set" where
  "white_space =
     {CHR 0x09, CHR 0x0A, CHR 0x0B, CHR 0x0C, CHR 0x0D, CHR 0x1C, CHR 0x1D, CHR 0x1E, CHR 0x1F,
      CHR 0x20, CHR 0x85, CHR 0xA0}"

definition same_letter :: "char \<Rightarrow> char \<Rightarrow> bool" where
  "same_letter c d = (c = d \<or> (of_char c :: nat) + 32 = of_char d)"

definition reads_as :: "string \<Rightarrow> string \<Rightarrow> bool" where
  "reads_as t u =
     (\<exists>a m b. t = a @ m @ b \<and> set a \<subseteq> white_space \<and> set b \<subseteq> white_space \<and>
        list_all2 same_letter m u)"

subsection \<open>Valid inputs and exact arithmetic\<close>

text \<open>
  The inputs the specification calls valid, given by their real values: a matrix with at
  least one row whose entries are positive, one non-negative weight and one label for
  every column, a positive sum of the weights, labels that read \<^verbatim>\<open>benefit\<close> or \<^verbatim>\<open>cost\<close>
  after \<^verbatim>\<open>lower\<close> and \<^verbatim>\<open>strip\<close>, and one name for every row.
\<close>

definition label_known :: "string \<Rightarrow> bool" where
  "label_known t = (py_strip (py_lower t) = ''benefit'' \<or> py_strip (py_lower t) = ''cost'')"

definition valid_input :: "real list list \<Rightarrow> real list \<Rightarrow> string list \<Rightarrow> string list \<Rightarrow> bool" where
  "valid_input X w criteria_type alternatives =
     (X \<noteq> [] \<and> (\<forall>row \<in> set X. length row = length w \<and> (\<forall>x \<in> set row. 0 < x)) \<and>
      (\<forall>x \<in> set w. 0 \<le> x) \<and> 0 < sum_list w \<and>
      length criteria_type = length w \<and> (\<forall>t \<in> set criteria_type. label_known t) \<and>
      length alternatives = length X)"

text \<open>
  What lines 23 to 38 compute on such an input, where every value stays finite: the
  exponents, the raw scores and the preference scores as real numbers. The lemma
  \<open>wp_scores_valid\<close> shows that the routine computes these.
\<close>

definition exponents_real :: "real list \<Rightarrow> string list \<Rightarrow> real list" where
  "exponents_real w criteria_type =
     map2 (\<lambda>t x. if is_cost t then - x else x) criteria_type
       (if \<bar>sum_list w - 1\<bar> \<le> atol + rtol * 1 then w else map (\<lambda>x. x / sum_list w) w)"

definition raw_scores_real :: "real list list \<Rightarrow> real list \<Rightarrow> real list" where
  "raw_scores_real X e = map (\<lambda>row. prod_list (map2 (powr) row e)) X"

definition preferences_real :: "real list \<Rightarrow> real list" where
  "preferences_real S = map (\<lambda>s. s / sum_list S) S"

subsection \<open>Arithmetic on finite values\<close>

lemma np_sum_Fin: "np_sum (map Fin xs) = Fin (sum_list xs)"
  by (induction xs) simp_all

lemma np_prod_Fin: "np_prod (map Fin xs) = Fin (prod_list xs)"
  by (induction xs) simp_all

lemma np_pow_pos: "0 < a \<Longrightarrow> np_pow (Fin a) (Fin b) = Fin (a powr b)"
  by (simp add: fin_pow_def)

lemma np_isclose_one: "np_isclose (Fin s) (Fin 1) \<longleftrightarrow> \<bar>s - 1\<bar> \<le> atol + rtol * 1"
  by simp

lemma normalize_weights_Fin:
  assumes "sum_list w \<noteq> 0"
  shows "normalize_weights (map Fin w) =
         map Fin (if \<bar>sum_list w - 1\<bar> \<le> atol + rtol * 1 then w
                  else map (\<lambda>x. x / sum_list w) w)"
  unfolding normalize_weights_def np_sum_Fin np_isclose_one using assms by simp

lemma negate_costs_nth:
  "j + length ts \<le> length w \<Longrightarrow>
   \<exists>w'. negate_costs j ts w = Inr w' \<and> length w' = length w \<and>
     (\<forall>k<length w. w' ! k =
        (if j \<le> k \<and> k < j + length ts \<and> is_cost (ts ! (k - j)) then np_neg (w ! k) else w ! k))"
proof (induction ts arbitrary: j w)
  case Nil
  then show ?case by auto
next
  case (Cons t ts)
  let ?w1 = "if is_cost t then w[j := np_neg (w ! j)] else w"
  have len: "Suc j + length ts \<le> length ?w1" using Cons.prems by simp
  from Cons.IH [OF len] obtain w' where
    w': "negate_costs (Suc j) ts ?w1 = Inr w'" "length w' = length ?w1"
    and nth: "\<And>k. k < length ?w1 \<Longrightarrow> w' ! k =
        (if Suc j \<le> k \<and> k < Suc j + length ts \<and> is_cost (ts ! (k - Suc j))
         then np_neg (?w1 ! k) else ?w1 ! k)"
    by blast
  have run: "negate_costs j (t # ts) w = Inr w'"
    using w'(1) Cons.prems by (cases "is_cost t") simp_all
  have "w' ! k =
        (if j \<le> k \<and> k < j + length (t # ts) \<and> is_cost ((t # ts) ! (k - j))
         then np_neg (w ! k) else w ! k)" if "k < length w" for k
  proof (cases "k = j")
    case True
    then show ?thesis using nth [of k] that by simp
  next
    case False
    then have "(t # ts) ! (k - j) = ts ! (k - Suc j)" if "j \<le> k"
      using that by (simp add: nth_Cons')
    then show ?thesis using nth [of k] that False by auto
  qed
  then show ?case using run w'(2) by simp
qed

lemma negate_costs_Fin:
  assumes "length ts = length w"
  shows "negate_costs 0 ts (map Fin w) =
         Inr (map Fin (map2 (\<lambda>t x. if is_cost t then - x else x) ts w))"
proof -
  from negate_costs_nth [of 0 ts "map Fin w"] assms obtain w' where
    w': "negate_costs 0 ts (map Fin w) = Inr w'" "length w' = length w"
    and nth: "\<And>k. k < length w \<Longrightarrow>
        w' ! k = (if is_cost (ts ! k) then np_neg (Fin (w ! k)) else Fin (w ! k))"
    by auto
  have "w' = map Fin (map2 (\<lambda>t x. if is_cost t then - x else x) ts w)"
    by (rule nth_equalityI) (simp_all add: w'(2) assms nth)
  then show ?thesis using w'(1) by simp
qed

lemma map2_np_pow_Fin:
  assumes "\<forall>x \<in> set row. 0 < x" "length row = length e"
  shows "map2 np_pow (map Fin row) (map Fin e) = map Fin (map2 (powr) row e)"
  using assms
  by (intro nth_equalityI) (simp_all add: np_pow_pos del: np_pow.simps)

lemma prod_list_map2_nth:
  fixes f :: "'a \<Rightarrow> 'b \<Rightarrow> real"
  assumes "length xs = length ys"
  shows "prod_list (map2 f xs ys) = (\<Prod>j<length xs. f (xs ! j) (ys ! j))"
proof -
  have "prod_list (map2 f xs ys) = (\<Prod>j = 0..<length xs. map2 f xs ys ! j)"
    using assms by (simp add: prod.list_conv_set_nth)
  also have "\<dots> = (\<Prod>j = 0..<length xs. f (xs ! j) (ys ! j))"
    using assms by (intro prod.cong) simp_all
  finally show ?thesis by (simp add: lessThan_atLeast0)
qed

lemma sum_list_pos_real:
  fixes xs :: "real list"
  assumes "xs \<noteq> []" "\<forall>x \<in> set xs. 0 < x"
  shows "0 < sum_list xs"
  using assms
proof (induction xs)
  case Nil
  then show ?case by simp
next
  case (Cons x xs)
  then show ?case by (cases xs) (auto intro: add_pos_pos)
qed

lemma prod_list_pos_real:
  fixes xs :: "real list"
  assumes "\<forall>x \<in> set xs. 0 < x"
  shows "0 < prod_list xs"
  using assms by (induction xs) simp_all

lemma sum_list_divide_real:
  fixes xs :: "real list"
  shows "sum_list (map (\<lambda>s. s / t) xs) = sum_list xs / t"
  by (induction xs) (simp_all add: add_divide_distrib)

lemma preference_scores_Fin:
  assumes "sum_list S \<noteq> 0"
  shows "preference_scores (map Fin S) = map Fin (map (\<lambda>s. s / sum_list S) S)"
  using assms by (simp add: preference_scores_def np_sum_Fin)

subsection \<open>Labels\<close>

lemma is_cost_cost: "is_cost ''cost''"
  by code_simp

lemma not_is_cost_benefit: "\<not> is_cost ''benefit''"
  by code_simp


lemma label_known_benefit: "label_known ''benefit''"
  by code_simp

lemma label_known_cost: "label_known ''cost''"
  by code_simp


subsection \<open>The routine on valid inputs\<close>

lemma rectangular_same_length:
  assumes "\<forall>row \<in> set X. length row = n"
  shows "rectangular X"
proof (cases X)
  case Nil
  then show ?thesis by (simp add: rectangular_def)
next
  case (Cons r rs)
  then show ?thesis using assms by (simp add: rectangular_def)
qed

lemma length_exponents_real:
  "length criteria_type = length w \<Longrightarrow> length (exponents_real w criteria_type) = length w"
  by (simp add: exponents_real_def)

lemma exponents_valid:
  assumes "sum_list w \<noteq> 0" "length criteria_type = length w"
  shows "negate_costs 0 criteria_type (normalize_weights (map Fin w)) =
         Inr (map Fin (exponents_real w criteria_type))"
proof -
  let ?w' = "if \<bar>sum_list w - 1\<bar> \<le> atol + rtol * 1 then w else map (\<lambda>x. x / sum_list w) w"
  have "length criteria_type = length ?w'" using assms(2) by simp
  then have "negate_costs 0 criteria_type (map Fin ?w') =
      Inr (map Fin (map2 (\<lambda>t x. if is_cost t then - x else x) criteria_type ?w'))"
    by (rule negate_costs_Fin)
  then show ?thesis
    unfolding normalize_weights_Fin [OF assms(1)] exponents_real_def .
qed

lemma pow_broadcast_valid:
  assumes "X \<noteq> []" "\<forall>row \<in> set X. length row = length e \<and> (\<forall>x \<in> set row. 0 < x)"
  shows "pow_broadcast (map (map Fin) X) (map Fin e) =
         Inr (map (map Fin) (map (\<lambda>row. map2 (powr) row e) X))"
proof -
  have hd: "length (hd (map (map Fin) X)) = length (map Fin e)"
    using assms by (cases X) simp_all
  have "map (\<lambda>row. map2 np_pow row (map Fin e)) (map (map Fin) X) =
        map (map Fin) (map (\<lambda>row. map2 (powr) row e) X)"
    using assms(2) by (simp add: map2_np_pow_Fin)
  then show ?thesis using assms(1) hd by (simp add: pow_broadcast_def)
qed

lemma raw_scores_real_pos:
  assumes "\<forall>row \<in> set X. \<forall>x \<in> set row. 0 < x"
  shows "\<forall>s \<in> set (raw_scores_real X e). 0 < s"
proof -
  have "0 < prod_list (map2 (powr) row e)" if "row \<in> set X" for row
  proof (rule prod_list_pos_real, rule ballI)
    fix p assume "p \<in> set (map2 (powr) row e)"
    then obtain x y where "(x, y) \<in> set (zip row e)" "p = x powr y" by auto
    moreover from this have "x \<in> set row" by (auto dest: set_zip_leftD)
    ultimately show "0 < p" using assms that by fastforce
  qed
  then show ?thesis by (auto simp: raw_scores_real_def)
qed

lemma sum_raw_scores_real_pos:
  assumes "X \<noteq> []" "\<forall>row \<in> set X. \<forall>x \<in> set row. 0 < x"
  shows "0 < sum_list (raw_scores_real X e)"
proof (rule sum_list_pos_real)
  show "raw_scores_real X e \<noteq> []" using assms(1) by (simp add: raw_scores_real_def)
  show "\<forall>s \<in> set (raw_scores_real X e). 0 < s" using assms(2) by (rule raw_scores_real_pos)
qed

lemma map_np_prod_Fin: "map np_prod (map (map Fin) Y) = map Fin (map prod_list Y)"
  by (induction Y) (simp_all add: np_prod_Fin)

lemma wp_scores_valid:
  assumes "valid_input X w criteria_type alternatives"
  shows "wp_scores (map (map Fin) X) (map Fin w) criteria_type =
         Inr (map Fin (raw_scores_real X (exponents_real w criteria_type)),
              map Fin (preferences_real (raw_scores_real X (exponents_real w criteria_type))))"
proof -
  let ?e = "exponents_real w criteria_type"
  let ?S = "raw_scores_real X ?e"
  from assms have X: "X \<noteq> []" and rows: "\<forall>row \<in> set X. length row = length w \<and> (\<forall>x \<in> set row. 0 < x)"
    and sum: "0 < sum_list w" and len: "length criteria_type = length w"
    by (simp_all add: valid_input_def)
  have 1: "np_array (map (map Fin) X) = Inr (map (map Fin) X)"
    using rows by (simp add: np_array_def rectangular_same_length [of _ "length w"])
  have 2: "negate_costs 0 criteria_type (normalize_weights (map Fin w)) = Inr (map Fin ?e)"
    using sum len by (simp add: exponents_valid)
  have 3: "pow_broadcast (map (map Fin) X) (map Fin ?e) =
           Inr (map (map Fin) (map (\<lambda>row. map2 (powr) row ?e) X))"
    using X rows len by (intro pow_broadcast_valid) (simp_all add: length_exponents_real)
  have 4: "prod_axis1 (map (map Fin) (map (\<lambda>row. map2 (powr) row ?e) X)) = Inr (map Fin ?S)"
    unfolding prod_axis1_def raw_scores_real_def map_np_prod_Fin using X by (simp add: o_def)
  have "0 < sum_list ?S" using X rows by (intro sum_raw_scores_real_pos) simp_all
  then have 5: "preference_scores (map Fin ?S) = map Fin (preferences_real ?S)"
    by (simp add: preference_scores_Fin preferences_real_def)
  show ?thesis by (simp only: wp_scores_def 1 2 3 4 5 sum.case)
qed




subsection \<open>The comparison of the sorts\<close>

lemma np_lt_irrefl: "\<not> np_lt x x"
  by (cases x) simp_all

lemma np_lt_trans: "np_lt x y \<Longrightarrow> np_lt y z \<Longrightarrow> np_lt x z"
  by (cases x; cases y; cases z) simp_all

lemma np_lt_asym: "np_lt x y \<Longrightarrow> \<not> np_lt y x"
  by (cases x; cases y) simp_all

lemma np_lt_total: "np_lt x y \<or> x = y \<or> np_lt y x"
  by (cases x; cases y) auto

lemma before_stable_trans:
  "before_stable v i j \<Longrightarrow> before_stable v j k \<Longrightarrow> before_stable v i k"
  unfolding before_stable_def using np_lt_trans by (metis less_trans)

lemma set_insert_index: "set (insert_index v i ks) = insert i (set ks)"
  by (induction ks) auto

lemma sorted_insert_index:
  assumes "sorted_wrt (before_stable v) ks" "\<forall>k \<in> set ks. k < i"
  shows "sorted_wrt (before_stable v) (insert_index v i ks)"
  using assms
proof (induction ks)
  case Nil
  then show ?case by simp
next
  case (Cons k ks)
  show ?case
  proof (cases "np_lt (v ! i) (v ! k)")
    case True
    then have ik: "before_stable v i k" by (simp add: before_stable_def)
    have "before_stable v i x" if "x \<in> set ks" for x
      using that Cons.prems(1) ik before_stable_trans by auto
    then show ?thesis using True ik Cons.prems(1) by simp
  next
    case False
    have "k < i" using Cons.prems(2) by simp
    with False have ki: "before_stable v k i"
      using np_lt_total [of "v ! i" "v ! k"] by (auto simp: before_stable_def)
    have "sorted_wrt (before_stable v) (insert_index v i ks)"
      using Cons by simp
    then show ?thesis using False ki Cons.prems(1) by (simp add: set_insert_index)
  qed
qed

lemma insertion_argsort_upto:
  "set (foldl (\<lambda>acc i. insert_index v i acc) [] [0..<m]) = {..<m} \<and>
   sorted_wrt (before_stable v) (foldl (\<lambda>acc i. insert_index v i acc) [] [0..<m])"
proof (induction m)
  case 0
  then show ?case by simp
next
  case (Suc m)
  then show ?case
    by (auto simp: set_insert_index sorted_insert_index lessThan_Suc)
qed

lemma before_stable_distinct: "sorted_wrt (before_stable v) ks \<Longrightarrow> distinct ks"
  by (induction ks) (auto simp: before_stable_def np_lt_irrefl)

lemma argsort_ok_insertion: "argsort_ok insertion_argsort"
proof -
  have "distinct (insertion_argsort v) \<and> set (insertion_argsort v) = {..<length v} \<and>
        sorted_wrt (\<lambda>i k. \<not> np_lt (v ! k) (v ! i)) (insertion_argsort v)" for v
  proof -
    have s: "sorted_wrt (before_stable v) (insertion_argsort v)"
      and m: "set (insertion_argsort v) = {..<length v}"
      using insertion_argsort_upto [of v "length v"] by (simp_all add: insertion_argsort_def)
    have "sorted_wrt (\<lambda>i k. \<not> np_lt (v ! k) (v ! i)) (insertion_argsort v)"
      by (rule sorted_wrt_mono_rel [OF _ s])
         (auto simp: before_stable_def np_lt_irrefl dest: np_lt_asym)
    then show ?thesis using s m before_stable_distinct by blast
  qed
  then show ?thesis by (simp add: argsort_ok_def)
qed

lemma argsort_stable_insertion: "argsort_stable insertion_argsort"
proof -
  have "sorted_wrt (\<lambda>i k. v ! i = v ! k \<longrightarrow> i < k) (insertion_argsort v)" for v
  proof -
    have s: "sorted_wrt (before_stable v) (insertion_argsort v)"
      using insertion_argsort_upto [of v "length v"] by (simp add: insertion_argsort_def)
    show ?thesis
      by (rule sorted_wrt_mono_rel [OF _ s]) (auto simp: before_stable_def np_lt_irrefl)
  qed
  then show ?thesis by (simp add: argsort_stable_def)
qed

subsection \<open>The descending order of pandas\<close>

lemma nargsort_desc_no_nan:
  assumes "\<forall>x \<in> set items. \<not> np_isnan x"
  shows "nargsort_desc f items =
         rev (map (\<lambda>k. rev [0..<length items] ! k) (f (rev items)))"
proof -
  have a: "filter (\<lambda>i. \<not> np_isnan (items ! i)) [0..<length items] = [0..<length items]"
    using assms by (simp add: filter_id_conv)
  have b: "filter (\<lambda>i. np_isnan (items ! i)) [0..<length items] = []"
    using assms by (simp add: filter_empty_conv)
  show ?thesis
    unfolding nargsort_desc_def Let_def a b by (simp add: map_nth)
qed

lemma argsort_okD:
  assumes "argsort_ok f" "\<forall>x \<in> set v. \<not> np_isnan x"
  shows "distinct (f v)" "set (f v) = {..<length v}" "length (f v) = length v"
    "sorted_wrt (\<lambda>i k. \<not> np_lt (v ! k) (v ! i)) (f v)"
proof -
  show d: "distinct (f v)" and s: "set (f v) = {..<length v}"
    and "sorted_wrt (\<lambda>i k. \<not> np_lt (v ! k) (v ! i)) (f v)"
    using assms by (simp_all add: argsort_ok_def)
  show "length (f v) = length v"
    using distinct_card [OF d] s by simp
qed

lemma nargsort_desc_sorted:
  assumes ok: "argsort_ok f" and nn: "\<forall>x \<in> set items. \<not> np_isnan x"
  shows "length (nargsort_desc f items) = length items"
    and "distinct (nargsort_desc f items)"
    and "set (nargsort_desc f items) = {..<length items}"
    and "\<forall>a b. a < b \<and> b < length items \<longrightarrow>
           \<not> np_lt (items ! (nargsort_desc f items ! a)) (items ! (nargsort_desc f items ! b))"
    and "argsort_stable f \<Longrightarrow> \<forall>a b. a < b \<and> b < length items \<and>
           items ! (nargsort_desc f items ! a) = items ! (nargsort_desc f items ! b) \<longrightarrow>
           nargsort_desc f items ! a < nargsort_desc f items ! b"
proof -
  let ?n = "length items"
  let ?p = "f (rev items)"
  let ?idx = "nargsort_desc f items"
  have nn': "\<forall>x \<in> set (rev items). \<not> np_isnan x" using nn by simp
  note p = argsort_okD [OF ok nn']
  have plen: "length ?p = ?n" using p(3) by simp
  have pset: "set ?p = {..<?n}" using p(2) by simp
  have plt: "?p ! k < ?n" if "k < ?n" for k
    using that plen pset nth_mem [of k ?p] by auto
  have idx: "?idx = rev (map (\<lambda>k. ?n - 1 - k) ?p)"
  proof -
    have "map (\<lambda>k. rev [0..<?n] ! k) ?p = map (\<lambda>k. ?n - 1 - k) ?p"
      using pset by (intro map_cong) (auto simp: rev_nth)
    then show ?thesis using nargsort_desc_no_nan [OF nn] by simp
  qed
  show len: "length ?idx = ?n" using idx plen by simp
  have inj: "inj_on (\<lambda>k. ?n - 1 - k) (set ?p)"
    unfolding pset by (rule inj_onI) auto
  show "distinct ?idx"
    using idx p(1) inj by (simp add: distinct_map)
  show "set ?idx = {..<?n}"
  proof -
    have "(\<lambda>k. ?n - 1 - k) ` {..<?n} = {..<?n}"
    proof (intro equalityI subsetI)
      fix x assume "x \<in> (\<lambda>k. ?n - 1 - k) ` {..<?n}"
      then show "x \<in> {..<?n}" by auto
    next
      fix x assume "x \<in> {..<?n}"
      then have "x = ?n - 1 - (?n - 1 - x)" "?n - 1 - x \<in> {..<?n}" by auto
      then show "x \<in> (\<lambda>k. ?n - 1 - k) ` {..<?n}" by (rule image_eqI)
    qed
    then show ?thesis using idx pset by simp
  qed
  have nth_idx: "?idx ! a = ?n - 1 - ?p ! (?n - 1 - a)" if "a < ?n" for a
    using that idx plen by (simp add: rev_nth)
  have val: "items ! (?idx ! a) = rev items ! (?p ! (?n - 1 - a))" if "a < ?n" for a
  proof -
    have "?p ! (?n - 1 - a) < ?n" using that by (intro plt) simp
    then show ?thesis using that by (simp add: nth_idx rev_nth)
  qed
  show "\<forall>a b. a < b \<and> b < ?n \<longrightarrow> \<not> np_lt (items ! (?idx ! a)) (items ! (?idx ! b))"
  proof (intro allI impI)
    fix a b assume ab: "a < b \<and> b < ?n"
    then have "?n - 1 - b < ?n - 1 - a" "?n - 1 - a < length ?p" using plen by auto
    then have "\<not> np_lt (rev items ! (?p ! (?n - 1 - a))) (rev items ! (?p ! (?n - 1 - b)))"
      using p(4) by (simp add: sorted_wrt_iff_nth_less)
    then show "\<not> np_lt (items ! (?idx ! a)) (items ! (?idx ! b))"
      using ab by (simp add: val)
  qed
  show "\<forall>a b. a < b \<and> b < ?n \<and> items ! (?idx ! a) = items ! (?idx ! b) \<longrightarrow> ?idx ! a < ?idx ! b"
    if st: "argsort_stable f"
  proof (intro allI impI)
    fix a b assume "a < b \<and> b < ?n \<and> items ! (?idx ! a) = items ! (?idx ! b)"
    then have ab: "a < b" "b < ?n" "a < ?n"
      and eq: "items ! (?idx ! a) = items ! (?idx ! b)" by simp_all
    have "sorted_wrt (\<lambda>i k. rev items ! i = rev items ! k \<longrightarrow> i < k) ?p"
      using st nn' by (simp add: argsort_stable_def)
    moreover have "?n - 1 - b < ?n - 1 - a" "?n - 1 - a < length ?p" using ab plen by auto
    ultimately have "rev items ! (?p ! (?n - 1 - b)) = rev items ! (?p ! (?n - 1 - a)) \<longrightarrow>
        ?p ! (?n - 1 - b) < ?p ! (?n - 1 - a)"
      by (simp add: sorted_wrt_iff_nth_less)
    moreover have "rev items ! (?p ! (?n - 1 - b)) = rev items ! (?p ! (?n - 1 - a))"
      using eq val [OF ab(3)] val [OF ab(2)] by simp
    ultimately have "?p ! (?n - 1 - b) < ?p ! (?n - 1 - a)"
      by blast
    moreover have "?p ! (?n - 1 - a) < ?n" using ab by (intro plt) simp
    ultimately show "?idx ! a < ?idx ! b" using ab by (simp add: nth_idx)
  qed
qed

lemma data_frame_columns:
  assumes "length alternatives = length S" "length V = length S"
  shows "data_frame alternatives S V =
         Inr (map (\<lambda>i. \<lparr>Alternatif = alternatives ! i, Nilai_S = S ! i, Nilai_V = V ! i\<rparr>)
                [0..<length S])"
proof -
  have "map (\<lambda>(a, s, v). \<lparr>Alternatif = a, Nilai_S = s, Nilai_V = v\<rparr>) (zip alternatives (zip S V)) =
        map (\<lambda>i. \<lparr>Alternatif = alternatives ! i, Nilai_S = S ! i, Nilai_V = V ! i\<rparr>) [0..<length S]"
    using assms by (intro nth_equalityI) simp_all
  then show ?thesis using assms by (simp add: data_frame_def)
qed

lemma sort_values_rows:
  assumes "set idx \<subseteq> {..<n}"
  shows "map (\<lambda>i. map g [0..<n] ! i) idx = map g idx"
  using assms by (intro map_cong) auto

lemma weighted_product_valid:
  assumes v: "valid_input X w criteria_type alternatives" and ok: "argsort_ok f"
  defines "S \<equiv> raw_scores_real X (exponents_real w criteria_type)"
  defines "V \<equiv> preferences_real S"
  defines "idx \<equiv> nargsort_desc f (map Fin V)"
  shows "weighted_product f (map (map Fin) X) (map Fin w) criteria_type alternatives criteria =
         Inr (map (\<lambda>i. \<lparr>Alternatif = alternatives ! i, Nilai_S = Fin (S ! i),
                        Nilai_V = Fin (V ! i)\<rparr>) idx)"
    and "length idx = length X" and "distinct idx" and "set idx = {..<length X}"
    and "\<forall>a b. a < b \<and> b < length X \<longrightarrow> V ! (idx ! b) \<le> V ! (idx ! a)"
    and "argsort_stable f \<Longrightarrow>
         \<forall>a b. a < b \<and> b < length X \<and> V ! (idx ! a) = V ! (idx ! b) \<longrightarrow> idx ! a < idx ! b"
proof -
  have lenS: "length S = length X" by (simp add: S_def raw_scores_real_def)
  have lenV: "length V = length X" by (simp add: V_def preferences_real_def lenS)
  have alts: "length alternatives = length X" using v by (simp add: valid_input_def)
  have nn: "\<forall>x \<in> set (map Fin V). \<not> np_isnan x" by auto
  note srt = nargsort_desc_sorted [OF ok nn, folded idx_def, simplified, unfolded lenV]
  show len: "length idx = length X" and d: "distinct idx" and s: "set idx = {..<length X}"
    using srt(1-3) by simp_all
  have lt: "idx ! a < length X" if "a < length X" for a
    using that len s nth_mem [of a idx] by auto
  show "\<forall>a b. a < b \<and> b < length X \<longrightarrow> V ! (idx ! b) \<le> V ! (idx ! a)"
  proof (intro allI impI)
    fix a b assume ab: "a < b \<and> b < length X"
    then have "\<not> np_lt (map Fin V ! (idx ! a)) (map Fin V ! (idx ! b))" using srt(4) by blast
    moreover have "idx ! a < length V" "idx ! b < length V" using ab lt lenV by simp_all
    ultimately show "V ! (idx ! b) \<le> V ! (idx ! a)" by simp
  qed
  show "\<forall>a b. a < b \<and> b < length X \<and> V ! (idx ! a) = V ! (idx ! b) \<longrightarrow> idx ! a < idx ! b"
    if st: "argsort_stable f"
  proof (intro allI impI)
    fix a b assume "a < b \<and> b < length X \<and> V ! (idx ! a) = V ! (idx ! b)"
    then have ab: "a < b" "b < length X" "a < length X" and eq: "V ! (idx ! a) = V ! (idx ! b)"
      by simp_all
    have "idx ! a < length V" "idx ! b < length V" using ab lt lenV by simp_all
    then have "map Fin V ! (idx ! a) = map Fin V ! (idx ! b)" using eq by simp
    then show "idx ! a < idx ! b" using srt(5) [OF st] ab by blast
  qed
  have sc: "wp_scores (map (map Fin) X) (map Fin w) criteria_type = Inr (map Fin S, map Fin V)"
    unfolding S_def V_def using v by (rule wp_scores_valid)
  have df: "data_frame alternatives (map Fin S) (map Fin V) =
      Inr (map (\<lambda>i. \<lparr>Alternatif = alternatives ! i, Nilai_S = map Fin S ! i,
                     Nilai_V = map Fin V ! i\<rparr>) [0..<length X])"
    using data_frame_columns [of alternatives "map Fin S" "map Fin V"] alts lenS lenV by simp
  let ?df = "map (\<lambda>i. \<lparr>Alternatif = alternatives ! i, Nilai_S = map Fin S ! i,
                     Nilai_V = map Fin V ! i\<rparr>) [0..<length X]"
  have col: "map Nilai_V ?df = map Fin V"
    using lenV by (intro nth_equalityI) simp_all
  have "sort_values f ?df =
        map (\<lambda>i. \<lparr>Alternatif = alternatives ! i, Nilai_S = map Fin S ! i,
                     Nilai_V = map Fin V ! i\<rparr>) idx"
    unfolding sort_values_def col idx_def [symmetric]
    using s by (intro sort_values_rows) simp
  also have "\<dots> = map (\<lambda>i. \<lparr>Alternatif = alternatives ! i, Nilai_S = Fin (S ! i),
                        Nilai_V = Fin (V ! i)\<rparr>) idx"
    using s lenS lenV by (intro map_cong) auto
  finally show "weighted_product f (map (map Fin) X) (map Fin w) criteria_type alternatives criteria =
         Inr (map (\<lambda>i. \<lparr>Alternatif = alternatives ! i, Nilai_S = Fin (S ! i),
                        Nilai_V = Fin (V ! i)\<rparr>) idx)"
    by (simp add: weighted_product_def sc df)
qed

subsection \<open>Case and white space of the labels\<close>

lemma char_lower_space: "py_isspace c \<Longrightarrow> char_lower c = c"
  by (auto simp: py_isspace_def char_lower_def Let_def)

lemma py_lower_space: "\<forall>c \<in> set a. py_isspace c \<Longrightarrow> py_lower a = a"
  by (simp add: py_lower_def char_lower_space map_idI)

lemma py_lower_append: "py_lower (a @ b) = py_lower a @ py_lower b"
  by (simp add: py_lower_def)

lemma py_strip_surround:
  assumes "\<forall>c \<in> set a. py_isspace c" "\<forall>c \<in> set b. py_isspace c"
  shows "py_strip (a @ s @ b) = py_strip s"
proof -
  have 1: "dropWhile py_isspace (a @ s @ b) = dropWhile py_isspace (s @ b)"
    using assms(1) by (simp add: dropWhile_append2)
  have 2: "dropWhile py_isspace (rev (dropWhile py_isspace (s @ b))) =
           dropWhile py_isspace (rev (dropWhile py_isspace s))"
  proof (cases "\<forall>c \<in> set s. py_isspace c")
    case True
    then have e: "dropWhile py_isspace (s @ b) = []" "dropWhile py_isspace s = []"
      using assms(2) by (auto simp: dropWhile_eq_Nil_conv)
    show ?thesis unfolding e ..
  next
    case False
    then have e: "dropWhile py_isspace (s @ b) = dropWhile py_isspace s @ b"
      by (auto simp: dropWhile_append)
    show ?thesis unfolding e using assms(2) by (auto simp: dropWhile_append)
  qed
  show ?thesis unfolding py_strip_def 1 2 ..
qed

lemma white_space_isspace: "c \<in> white_space \<Longrightarrow> py_isspace c"
  by (auto simp: white_space_def py_isspace_def)

lemma same_letter_lower:
  assumes "same_letter c d" "97 \<le> (of_char d :: nat)" "(of_char d :: nat) \<le> 122"
  shows "char_lower c = d"
  using assms by (auto simp: same_letter_def char_lower_def Let_def)

lemma py_lower_same_letters:
  assumes "list_all2 same_letter m u"
    and "\<forall>d \<in> set u. 97 \<le> (of_char d :: nat) \<and> (of_char d :: nat) \<le> 122"
  shows "py_lower m = u"
  using assms
proof (induction rule: list_all2_induct)
  case Nil
  then show ?case by (simp add: py_lower_def)
next
  case (Cons c m d u)
  then show ?case by (simp add: py_lower_def same_letter_lower)
qed

lemma reads_as_normal:
  assumes "reads_as t u"
    and "\<forall>d \<in> set u. 97 \<le> (of_char d :: nat) \<and> (of_char d :: nat) \<le> 122"
  shows "py_strip (py_lower t) = py_strip u"
proof -
  from assms(1) obtain a m b where t: "t = a @ m @ b"
    and a: "set a \<subseteq> white_space" and b: "set b \<subseteq> white_space"
    and m: "list_all2 same_letter m u"
    unfolding reads_as_def by blast
  have sa: "\<forall>c \<in> set a. py_isspace c" using a by (auto intro: white_space_isspace)
  have sb: "\<forall>c \<in> set b. py_isspace c" using b by (auto intro: white_space_isspace)
  have "py_lower t = a @ u @ b"
    unfolding t py_lower_append py_lower_space [OF sa] py_lower_space [OF sb]
      py_lower_same_letters [OF m assms(2)] ..
  then show ?thesis using sa sb by (simp only: py_strip_surround)
qed

lemma small_cost: "\<forall>d \<in> set ''cost''. 97 \<le> (of_char d :: nat) \<and> (of_char d :: nat) \<le> 122"
  by simp

lemma small_benefit: "\<forall>d \<in> set ''benefit''. 97 \<le> (of_char d :: nat) \<and> (of_char d :: nat) \<le> 122"
  by simp

lemma py_strip_cost: "py_strip ''cost'' = ''cost''"
  by code_simp

lemma py_strip_benefit: "py_strip ''benefit'' = ''benefit''"
  by code_simp

lemma reads_as_cost: "reads_as t ''cost'' \<Longrightarrow> py_strip (py_lower t) = ''cost''"
  using reads_as_normal [OF _ small_cost] by (simp only: py_strip_cost)

lemma reads_as_benefit: "reads_as t ''benefit'' \<Longrightarrow> py_strip (py_lower t) = ''benefit''"
  using reads_as_normal [OF _ small_benefit] by (simp only: py_strip_benefit)

lemma length_normalize_weights: "length (normalize_weights w) = length w"
  by (simp add: normalize_weights_def)

subsection \<open>Changing one entry of the matrix\<close>

lemma row_score_split:
  fixes row :: "real list"
  assumes "j < length row" "length row = length e"
  shows "prod_list (map2 (powr) (row[j := a]) e) =
         a powr (e ! j) * (\<Prod>k \<in> {..<length e} - {j}. (row ! k) powr (e ! k))"
proof -
  have "prod_list (map2 (powr) (row[j := a]) e) =
        (\<Prod>k<length e. (row[j := a] ! k) powr (e ! k))"
    using prod_list_map2_nth [where xs = "row[j := a]" and ys = e and f = "(powr)"] assms by simp
  also have "\<dots> = (row[j := a] ! j) powr (e ! j) *
        (\<Prod>k \<in> {..<length e} - {j}. (row[j := a] ! k) powr (e ! k))"
    using assms by (intro prod.remove) simp_all
  also have "(\<Prod>k \<in> {..<length e} - {j}. (row[j := a] ! k) powr (e ! k)) =
        (\<Prod>k \<in> {..<length e} - {j}. (row ! k) powr (e ! k))"
    by (intro prod.cong) simp_all
  finally show ?thesis using assms by simp
qed


lemma row_score_scaled:
  fixes row :: "real list"
  assumes "j < length row" "length row = length e" "0 < c" "\<forall>x \<in> set row. 0 < x"
  shows "prod_list (map2 (powr) (row[j := c * row ! j]) e) =
         c powr (e ! j) * prod_list (map2 (powr) row e)"
proof -
  let ?R = "\<Prod>k \<in> {..<length e} - {j}. (row ! k) powr (e ! k)"
  have "0 < row ! j" using assms(1,4) by simp
  then have "(c * row ! j) powr (e ! j) = c powr (e ! j) * (row ! j) powr (e ! j)"
    using assms(3) by (simp add: powr_mult)
  moreover have "prod_list (map2 (powr) (row[j := row ! j]) e) = (row ! j) powr (e ! j) * ?R"
    using assms(1,2) by (rule row_score_split)
  moreover have "prod_list (map2 (powr) (row[j := c * row ! j]) e) = (c * row ! j) powr (e ! j) * ?R"
    using assms(1,2) by (rule row_score_split)
  ultimately show ?thesis by simp
qed



lemma sum_list_scale_real:
  fixes S :: "real list"
  shows "sum_list (map (\<lambda>s. k * s) S) = k * sum_list S"
  by (induction S) (simp_all add: distrib_left)

lemma preferences_real_scale:
  assumes "k \<noteq> 0"
  shows "preferences_real (map (\<lambda>s. k * s) S) = preferences_real S"
  using assms by (simp add: preferences_real_def sum_list_scale_real o_def)



lemma valid_input_scaled:
  assumes "valid_input X w criteria_type alternatives" "0 < c"
  shows "valid_input (map (\<lambda>row. row[j := c * row ! j]) X) w criteria_type alternatives"
proof -
  have "0 < x" if "row \<in> set X" "x \<in> set (row[j := c * row ! j])" for row x
  proof (cases "j < length row")
    case True
    have pos: "\<forall>y \<in> set row. 0 < y" using assms(1) that(1) by (simp add: valid_input_def)
    then have "0 < c * row ! j" using True assms(2) by simp
    moreover have "x \<in> insert (c * row ! j) (set row)"
      using that(2) set_update_subset_insert by fastforce
    ultimately show ?thesis using pos by auto
  next
    case False
    then have "row[j := c * row ! j] = row" by (intro list_update_beyond) simp
    then have "x \<in> set row" using that(2) by simp
    then show ?thesis using assms(1) that(1) by (simp add: valid_input_def)
  qed
  then show ?thesis using assms(1) by (auto simp: valid_input_def)
qed

lemma raw_scores_real_scaled:
  assumes "valid_input X w criteria_type alternatives" "0 < c" "j < length w" "length e = length w"
  shows "raw_scores_real (map (\<lambda>row. row[j := c * row ! j]) X) e =
         map (\<lambda>s. c powr (e ! j) * s) (raw_scores_real X e)"
proof -
  have "prod_list (map2 (powr) (row[j := c * row ! j]) e) =
        c powr (e ! j) * prod_list (map2 (powr) row e)" if "row \<in> set X" for row
  proof (rule row_score_scaled)
    show "j < length row" "length row = length e" "\<forall>x \<in> set row. 0 < x"
      using assms(1,3,4) that by (simp_all add: valid_input_def)
    show "0 < c" by (rule assms(2))
  qed
  then show ?thesis by (simp add: raw_scores_real_def)
qed







subsection \<open>The routine on arguments of fitting shapes\<close>

lemma length_nargsort_desc:
  assumes "argsort_ok f"
  shows "length (nargsort_desc f items) = length items"
proof -
  let ?nn = "filter (\<lambda>i. \<not> np_isnan (items ! i)) [0..<length items]"
  let ?na = "filter (\<lambda>i. np_isnan (items ! i)) [0..<length items]"
  let ?v = "rev (map (\<lambda>i. items ! i) ?nn)"
  have "\<forall>x \<in> set ?v. \<not> np_isnan x" by auto
  then have "length (f ?v) = length ?v" using assms by (rule argsort_okD(3) [rotated])
  then have "length (nargsort_desc f items) = length ?nn + length ?na"
    by (simp add: nargsort_desc_def Let_def)
  also have "\<dots> = length [0..<length items]"
    using sum_length_filter_compl [of "\<lambda>i. np_isnan (items ! i)" "[0..<length items]"]
    by (simp add: add.commute)
  finally show ?thesis by simp
qed

lemma length_sort_values:
  "argsort_ok f \<Longrightarrow> length (sort_values f df) = length df"
  by (simp add: sort_values_def length_nargsort_desc)

lemma wp_scores_shapes:
  assumes "X \<noteq> []" "\<forall>row \<in> set X. length row = length weights"
    "length criteria_type = length weights"
  shows "\<exists>e. negate_costs 0 criteria_type (normalize_weights weights) = Inr e \<and>
           length e = length weights \<and>
           (\<forall>j<length weights. e ! j =
              (if is_cost (criteria_type ! j) then np_neg (normalize_weights weights ! j)
               else normalize_weights weights ! j)) \<and>
           wp_scores X weights criteria_type =
             Inr (map (\<lambda>row. np_prod (map2 np_pow row e)) X,
                  preference_scores (map (\<lambda>row. np_prod (map2 np_pow row e)) X))"
proof -
  let ?w = "normalize_weights weights"
  have len: "0 + length criteria_type \<le> length ?w"
    using assms(3) by (simp add: length_normalize_weights)
  from negate_costs_nth [OF len] obtain e where
    e: "negate_costs 0 criteria_type ?w = Inr e" "length e = length ?w"
    and nth: "\<And>k. k < length ?w \<Longrightarrow>
        e ! k = (if k < length criteria_type \<and> is_cost (criteria_type ! k)
                 then np_neg (?w ! k) else ?w ! k)"
    by auto
  have lene: "length e = length weights" using e(2) by (simp add: length_normalize_weights)
  have nth': "\<forall>j<length weights. e ! j =
      (if is_cost (criteria_type ! j) then np_neg (?w ! j) else ?w ! j)"
    using nth assms(3) by (simp add: length_normalize_weights)
  have 1: "np_array X = Inr X"
    using assms(2) by (simp add: np_array_def rectangular_same_length [of _ "length weights"])
  have "hd X \<in> set X" using assms(1) by simp
  then have "length (hd X) = length e" using assms(2) lene by simp
  then have 3: "pow_broadcast X e = Inr (map (\<lambda>row. map2 np_pow row e) X)"
    using assms(1) by (simp add: pow_broadcast_def)
  have 4: "prod_axis1 (map (\<lambda>row. map2 np_pow row e) X) =
           Inr (map (\<lambda>row. np_prod (map2 np_pow row e)) X)"
    using assms(1) by (simp add: prod_axis1_def o_def)
  have "wp_scores X weights criteria_type =
             Inr (map (\<lambda>row. np_prod (map2 np_pow row e)) X,
                  preference_scores (map (\<lambda>row. np_prod (map2 np_pow row e)) X))"
    by (simp only: wp_scores_def 1 e(1) 3 4 sum.case)
  then show ?thesis using e(1) lene nth' by blast
qed

lemma weighted_product_of_scores:
  assumes "wp_scores X weights criteria_type = Inr (S, V)" "length alternatives = length S"
    "argsort_ok f"
  shows "\<exists>out. weighted_product f X weights criteria_type alternatives criteria = Inr out \<and>
           length out = length S"
proof -
  have "V = preference_scores S"
    using assms(1) by (auto simp: wp_scores_def split: sum.splits)
  then have "length V = length S" by (simp add: preference_scores_def)
  then have "data_frame alternatives S V =
      Inr (map (\<lambda>i. \<lparr>Alternatif = alternatives ! i, Nilai_S = S ! i, Nilai_V = V ! i\<rparr>)
             [0..<length S])"
    using assms(2) by (intro data_frame_columns)
  then show ?thesis
    using assms(1,3) by (simp add: weighted_product_def length_sort_values)
qed

lemma np_add_Fin: "np_add x y = Fin t \<Longrightarrow> \<exists>a b. x = Fin a \<and> y = Fin b \<and> t = a + b"
  by (cases x; cases y) simp_all

lemma np_sum_Fin_elems:
  "np_sum S = Fin t \<Longrightarrow> \<forall>s \<in> set S. \<exists>a. s = Fin a"
proof (induction S arbitrary: t)
  case Nil
  then show ?case by simp
next
  case (Cons s S)
  from Cons.prems obtain a b where "s = Fin a" "np_sum S = Fin b"
    using np_add_Fin [of s "np_sum S" t] by auto
  then show ?case using Cons.IH by auto
qed

lemma not_is_cost_neither: "\<not> is_cost ''neither''"
  by code_simp

text \<open>The definitions that evaluate the routine on a concrete input.\<close>

lemmas run_simps = weighted_product_def wp_scores_def np_array_def rectangular_def
  normalize_weights_def atol_def rtol_def pow_broadcast_def prod_axis1_def fin_pow_def
  preference_scores_def data_frame_def sort_values_def nargsort_desc_def
  insertion_argsort_def inf_of_sign_def upt_rec

subsection \<open>The scenario of the specification\<close>

lemma half_power_ratio:
  fixes x y :: real
  assumes "0 \<le> x" "0 \<le> y"
  shows "x powr (1 / 2) * y powr - (1 / 2) = sqrt (x / y)"
proof -
  have "x powr (1 / 2) = sqrt x" using assms(1) by (rule powr_half_sqrt)
  moreover have "y powr (1 / 2) = sqrt y" using assms(2) by (rule powr_half_sqrt)
  moreover have "y powr - (1 / 2) = inverse (y powr (1 / 2))" by (rule powr_minus)
  ultimately have "x powr (1 / 2) * y powr - (1 / 2) = sqrt x * inverse (sqrt y)"
    by (simp only:)
  also have "\<dots> = sqrt (x / y)"
    by (simp add: divide_inverse real_sqrt_mult real_sqrt_inverse)
  finally show ?thesis .
qed

lemma scenario_bounds:
  fixes sA sB :: real
  assumes A: "sA = 80 powr (1 / 2) * 70 powr - (1 / 2)"
    and B: "sB = 60 powr (1 / 2) * 90 powr - (1 / 2)"
  shows "106904 / 100000 < sA" "sA < 106905 / 100000"
    and "81649 / 100000 < sB" "sB < 81650 / 100000"
    and "56696 / 100000 < sA / (sA + sB)" "sA / (sA + sB) < 56698 / 100000"
    and "sB / (sA + sB) = 1 - sA / (sA + sB)"
proof -
  have "sA = sqrt (80 / 70)" unfolding A by (rule half_power_ratio) simp_all
  also have "(80 :: real) / 70 = 8 / 7" by simp
  finally have sA: "sA = sqrt (8 / 7)" .
  have "sB = sqrt (60 / 90)" unfolding B by (rule half_power_ratio) simp_all
  also have "(60 :: real) / 90 = 2 / 3" by simp
  finally have sB: "sB = sqrt (2 / 3)" .
  show a1: "106904 / 100000 < sA"
    unfolding sA by (rule real_less_rsqrt) (simp add: power2_eq_square)
  show a2: "sA < 106905 / 100000"
    unfolding sA by (rule real_less_lsqrt) (simp_all add: power2_eq_square)
  show b1: "81649 / 100000 < sB"
    unfolding sB by (rule real_less_rsqrt) (simp add: power2_eq_square)
  show b2: "sB < 81650 / 100000"
    unfolding sB by (rule real_less_lsqrt) (simp_all add: power2_eq_square)
  have pos: "0 < sA + sB" using a1 b1 by simp
  have "56696 / 100000 * (sA + sB) < sA" using a1 a2 b1 b2 by simp
  then show "56696 / 100000 < sA / (sA + sB)"
    using pos by (simp add: less_divide_eq)
  have "sA < 56698 / 100000 * (sA + sB)" using a1 a2 b1 b2 by simp
  then show "sA / (sA + sB) < 56698 / 100000"
    using pos by (simp add: divide_less_eq)
  have "sA + sB \<noteq> 0" using pos by simp
  then show "sB / (sA + sB) = 1 - sA / (sA + sB)" by (simp add: field_simps)
qed

lemma two_positions:
  assumes "length idx = 2" "distinct idx" "set idx = {..<2}" "idx ! 0 \<noteq> (1 :: nat)"
  shows "idx = [0, 1]"
proof -
  from assms(1) obtain p q where idx: "idx = [p, q]"
    by (metis One_nat_def Suc_1 length_0_conv length_Suc_conv)
  then have "p \<noteq> q" "p < 2" "q < 2" "p \<noteq> 1" using assms(2,3,4) by auto
  then have "p = 0" "q = 1" by auto
  then show ?thesis using idx by simp
qed

section \<open>The claims\<close>

subsection \<open>C1: raw scores and preference scores\<close>

text \<open>
  C1 says that the raw score of an alternative is the product of its entries to the
  signed exponents of the specification, which are the weights divided by their sum,
  negated for a cost criterion. Line 24 leaves the weights as they are when
  \<^verbatim>\<open>np.isclose\<close> finds their sum close to 1. For the one entry 4 and the one weight
  1.000001 of a benefit criterion, a valid input, the exponent of the specification is 1
  and its raw score is 4; the routine returns the raw score 4 to the power 1.000001,
  which is greater.
\<close>

theorem raw_score_exponent_counterexample:
  "valid_input [[4]] [1000001 / 1000000] [''benefit''] [''A''] \<and>
   weighted_product insertion_argsort [[Fin 4]] [Fin (1000001 / 1000000)] [''benefit''] [''A''] [] =
     Inr [\<lparr>Alternatif = ''A'', Nilai_S = Fin (4 powr (1000001 / 1000000)), Nilai_V = Fin 1\<rparr>] \<and>
   (4 :: real) powr ((1000001 / 1000000) / sum_list [1000001 / 1000000]) = 4 \<and>
   (4 :: real) < 4 powr (1000001 / 1000000)"
proof (intro conjI)
  show "valid_input [[4]] [1000001 / 1000000] [''benefit''] [''A'']"
    by (simp add: valid_input_def label_known_benefit)
  have pos: "(0 :: real) < 4 powr (1000001 / 1000000)" by simp
  have sc: "wp_scores [[Fin 4]] [Fin (1000001 / 1000000)] [''benefit''] =
      Inr ([Fin (4 powr (1000001 / 1000000))], [Fin 1])"
    using pos
    by (simp add: wp_scores_def np_array_def rectangular_def normalize_weights_def atol_def
        rtol_def not_is_cost_benefit pow_broadcast_def prod_axis1_def fin_pow_def
        preference_scores_def)
  show "weighted_product insertion_argsort [[Fin 4]] [Fin (1000001 / 1000000)] [''benefit''] [''A''] [] =
     Inr [\<lparr>Alternatif = ''A'', Nilai_S = Fin (4 powr (1000001 / 1000000)), Nilai_V = Fin 1\<rparr>]"
    by (simp add: weighted_product_def sc data_frame_def sort_values_def nargsort_desc_def
        insertion_argsort_def upt_rec)
  show "(4 :: real) powr ((1000001 / 1000000) / sum_list [1000001 / 1000000]) = 4"
    by simp
  have "(4 :: real) powr 1 < 4 powr (1000001 / 1000000)"
    by (intro powr_less_mono) simp_all
  then show "(4 :: real) < 4 powr (1000001 / 1000000)" by simp
qed




subsection \<open>C2: the scenario of the specification\<close>

text \<open>
  C2. On the matrix \<^verbatim>\<open>[[80,70],[60,90]]\<close>, the weights \<^verbatim>\<open>[0.5,0.5]\<close>, the types
  \<^verbatim>\<open>benefit\<close> and \<^verbatim>\<open>cost\<close> and the names \<^verbatim>\<open>A\<close> and \<^verbatim>\<open>B\<close>, the exponents are 0.5 and
  -0.5, the raw scores are \<open>80\<^sup>0\<^sup>.\<^sup>5 \<cdot> 70\<^sup>-\<^sup>0\<^sup>.\<^sup>5\<close> and
  \<open>60\<^sup>0\<^sup>.\<^sup>5 \<cdot> 90\<^sup>-\<^sup>0\<^sup>.\<^sup>5\<close>, and the table lists \<^verbatim>\<open>A\<close> before \<^verbatim>\<open>B\<close>, for every
  correct \<^verbatim>\<open>argsort\<close>. The raw scores and their sum are 1.0690, 0.8165 and 1.8855 within
  half a unit of the fourth decimal place; the preference scores are 0.5669 and 0.4331
  within one unit of the fourth decimal place (the first one lies between 0.56696 and
  0.56698, and the second one is 1 minus the first).
\<close>

theorem specification_scenario:
  assumes "argsort_ok argsort"
  shows "negate_costs 0 [''benefit'', ''cost''] (normalize_weights [Fin (1 / 2), Fin (1 / 2)]) =
           Inr [Fin (1 / 2), Fin (- (1 / 2))] \<and>
     (\<exists>sA sB vA vB.
        sA = 80 powr (1 / 2) * 70 powr - (1 / 2) \<and> sB = 60 powr (1 / 2) * 90 powr - (1 / 2) \<and>
        vA = sA / (sA + sB) \<and> vB = sB / (sA + sB) \<and>
        weighted_product argsort [[Fin 80, Fin 70], [Fin 60, Fin 90]] [Fin (1 / 2), Fin (1 / 2)]
            [''benefit'', ''cost''] [''A'', ''B''] criteria =
          Inr [\<lparr>Alternatif = ''A'', Nilai_S = Fin sA, Nilai_V = Fin vA\<rparr>,
               \<lparr>Alternatif = ''B'', Nilai_S = Fin sB, Nilai_V = Fin vB\<rparr>] \<and>
        \<bar>sA - 10690 / 10000\<bar> < 5 / 10 ^ 5 \<and> \<bar>sB - 8165 / 10000\<bar> < 5 / 10 ^ 5 \<and>
        \<bar>sA + sB - 18855 / 10000\<bar> < 5 / 10 ^ 5 \<and>
        \<bar>vA - 5669 / 10000\<bar> < 1 / 10 ^ 4 \<and> \<bar>vB - 4331 / 10000\<bar> < 1 / 10 ^ 4 \<and>
        56696 / 100000 < vA \<and> vA < 56698 / 100000 \<and> vB = 1 - vA)"
proof -
  define sA :: real where "sA = 80 powr (1 / 2) * 70 powr - (1 / 2)"
  define sB :: real where "sB = 60 powr (1 / 2) * 90 powr - (1 / 2)"
  define vA where "vA = sA / (sA + sB)"
  define vB where "vB = sB / (sA + sB)"
  note b = scenario_bounds [OF sA_def sB_def]
  let ?X = "[[80, 70], [60, 90 :: real]]"
  let ?w = "[1 / 2, 1 / 2 :: real]"
  let ?ct = "[''benefit'', ''cost'']"
  let ?alts = "[''A'', ''B'']"
  have v: "valid_input ?X ?w ?ct ?alts"
    by (simp add: valid_input_def label_known_benefit label_known_cost)
  have e: "exponents_real ?w ?ct = [1 / 2, - (1 / 2)]"
    by (simp add: exponents_real_def atol_def rtol_def not_is_cost_benefit is_cost_cost)
  have S: "raw_scores_real ?X (exponents_real ?w ?ct) = [sA, sB]"
    unfolding e by (simp add: raw_scores_real_def sA_def sB_def)
  have V: "preferences_real [sA, sB] = [vA, vB]"
    by (simp add: preferences_real_def vA_def vB_def)
  let ?idx = "nargsort_desc argsort (map Fin [vA, vB])"
  note r = weighted_product_valid [OF v assms, unfolded S V]
  have v1: "56696 / 100000 < vA" and v2: "vA < 56698 / 100000" and v3: "vB = 1 - vA"
    unfolding vA_def vB_def by (rule b)+
  have "vB < vA" using v1 v3 by linarith
  have "?idx ! 0 \<noteq> 1"
  proof
    assume 1: "?idx ! 0 = 1"
    have "?idx ! 1 < 2" using r(2,4) nth_mem [of 1 ?idx] by auto
    moreover have "?idx ! 1 \<noteq> ?idx ! 0" using r(2,3) by (simp add: distinct_conv_nth)
    ultimately have 0: "?idx ! 1 = 0" using 1 by auto
    have "[vA, vB] ! (?idx ! 1) \<le> [vA, vB] ! (?idx ! 0)" using r(5) by simp
    then show False using 0 1 \<open>vB < vA\<close> by simp
  qed
  then have idx: "?idx = [0, 1]" using r(2,3,4) by (intro two_positions) simp_all
  have out: "weighted_product argsort [[Fin 80, Fin 70], [Fin 60, Fin 90]] [Fin (1 / 2), Fin (1 / 2)]
            [''benefit'', ''cost''] [''A'', ''B''] criteria =
          Inr [\<lparr>Alternatif = ''A'', Nilai_S = Fin sA, Nilai_V = Fin vA\<rparr>,
               \<lparr>Alternatif = ''B'', Nilai_S = Fin sB, Nilai_V = Fin vB\<rparr>]"
    using r(1) [of criteria] unfolding idx by simp
  have ex: "negate_costs 0 [''benefit'', ''cost''] (normalize_weights [Fin (1 / 2), Fin (1 / 2)]) =
           Inr [Fin (1 / 2), Fin (- (1 / 2))]"
    by (simp add: normalize_weights_def atol_def rtol_def not_is_cost_benefit is_cost_cost)
  have n1: "\<bar>sA - 10690 / 10000\<bar> < 5 / 10 ^ 5" using b(1,2) by simp
  have n2: "\<bar>sB - 8165 / 10000\<bar> < 5 / 10 ^ 5" using b(3,4) by simp
  have n3: "\<bar>sA + sB - 18855 / 10000\<bar> < 5 / 10 ^ 5" using b(1,2,3,4) by simp
  have n4: "\<bar>vA - 5669 / 10000\<bar> < 1 / 10 ^ 4" using v1 v2 by simp
  have n5: "\<bar>vB - 4331 / 10000\<bar> < 1 / 10 ^ 4" unfolding v3 using v1 v2 by simp
  show ?thesis
    using ex sA_def sB_def vA_def vB_def out n1 n2 n3 n4 n5 v1 v2 v3 by blast
qed

theorem specification_scenario_witness:
  "argsort_ok insertion_argsort \<and>
   negate_costs 0 [''benefit'', ''cost''] (normalize_weights [Fin (1 / 2), Fin (1 / 2)]) =
           Inr [Fin (1 / 2), Fin (- (1 / 2))] \<and>
     (\<exists>sA sB vA vB.
        sA = 80 powr (1 / 2) * 70 powr - (1 / 2) \<and> sB = 60 powr (1 / 2) * 90 powr - (1 / 2) \<and>
        vA = sA / (sA + sB) \<and> vB = sB / (sA + sB) \<and>
        weighted_product insertion_argsort [[Fin 80, Fin 70], [Fin 60, Fin 90]]
            [Fin (1 / 2), Fin (1 / 2)] [''benefit'', ''cost''] [''A'', ''B''] [] =
          Inr [\<lparr>Alternatif = ''A'', Nilai_S = Fin sA, Nilai_V = Fin vA\<rparr>,
               \<lparr>Alternatif = ''B'', Nilai_S = Fin sB, Nilai_V = Fin vB\<rparr>] \<and>
        \<bar>sA - 10690 / 10000\<bar> < 5 / 10 ^ 5 \<and> \<bar>sB - 8165 / 10000\<bar> < 5 / 10 ^ 5 \<and>
        \<bar>sA + sB - 18855 / 10000\<bar> < 5 / 10 ^ 5 \<and>
        \<bar>vA - 5669 / 10000\<bar> < 1 / 10 ^ 4 \<and> \<bar>vB - 4331 / 10000\<bar> < 1 / 10 ^ 4 \<and>
        56696 / 100000 < vA \<and> vA < 56698 / 100000 \<and> vB = 1 - vA)"
  by (rule conjI [OF argsort_ok_insertion specification_scenario [OF argsort_ok_insertion]])

subsection \<open>C3: the sign of the exponents\<close>

text \<open>
  C3. For every criterion \<open>j\<close> the exponent that lines 28 to 31 leave at position \<open>j\<close> is
  the weight of line 25 when the label reads as \<^verbatim>\<open>benefit\<close>, and the negated weight when
  it reads as \<^verbatim>\<open>cost\<close>, whatever the case of its letters and whatever white space
  surrounds it: the label may be any string made of white space, then the letters of the
  word, each small or capital, then white space. The same holds in terms of the
  source: for the label that is \<^verbatim>\<open>benefit\<close>, or \<^verbatim>\<open>cost\<close>, after \<^verbatim>\<open>lower\<close> and \<^verbatim>\<open>strip\<close>.
\<close>

theorem exponent_sign:
  assumes "length criteria_type = length weights" and "j < length weights"
  shows "\<exists>e. negate_costs 0 criteria_type (normalize_weights weights) = Inr e \<and>
     length e = length weights \<and>
     (reads_as (criteria_type ! j) ''benefit'' \<longrightarrow> e ! j = normalize_weights weights ! j) \<and>
     (reads_as (criteria_type ! j) ''cost'' \<longrightarrow> e ! j = np_neg (normalize_weights weights ! j)) \<and>
     (py_strip (py_lower (criteria_type ! j)) = ''benefit'' \<longrightarrow>
        e ! j = normalize_weights weights ! j) \<and>
     (py_strip (py_lower (criteria_type ! j)) = ''cost'' \<longrightarrow>
        e ! j = np_neg (normalize_weights weights ! j))"
proof -
  let ?w = "normalize_weights weights"
  have len: "0 + length criteria_type \<le> length ?w"
    using assms(1) by (simp add: length_normalize_weights)
  from negate_costs_nth [OF len] obtain e where
    e: "negate_costs 0 criteria_type ?w = Inr e" "length e = length ?w"
    and nth: "\<And>k. k < length ?w \<Longrightarrow>
        e ! k = (if k < length criteria_type \<and> is_cost (criteria_type ! k)
                 then np_neg (?w ! k) else ?w ! k)"
    by auto
  have j: "j < length ?w" "j < length criteria_type"
    using assms by (simp_all add: length_normalize_weights)
  have ben: "e ! j = ?w ! j" if "py_strip (py_lower (criteria_type ! j)) = ''benefit''"
    using nth [OF j(1)] that by (simp add: is_cost_def)
  have cost: "e ! j = np_neg (?w ! j)" if "py_strip (py_lower (criteria_type ! j)) = ''cost''"
    using nth [OF j(1)] that j(2) by (simp add: is_cost_def)
  have len_e: "length e = length weights"
    using e(2) by (simp only: length_normalize_weights)
  show ?thesis
  proof (intro exI [of _ e] conjI impI)
    show "negate_costs 0 criteria_type ?w = Inr e" by (rule e(1))
    show "length e = length weights" by (rule len_e)
    show "e ! j = ?w ! j" if "reads_as (criteria_type ! j) ''benefit''"
      using that by (intro ben reads_as_benefit)
    show "e ! j = np_neg (?w ! j)" if "reads_as (criteria_type ! j) ''cost''"
      using that by (intro cost reads_as_cost)
    show "e ! j = ?w ! j" if "py_strip (py_lower (criteria_type ! j)) = ''benefit''"
      using that by (rule ben)
    show "e ! j = np_neg (?w ! j)" if "py_strip (py_lower (criteria_type ! j)) = ''cost''"
      using that by (rule cost)
  qed
qed

theorem exponent_sign_witness:
  "length [''BENEFIT'', CHR 0xA0 # ''CoSt ''] = length [Fin 1, Fin 3] \<and>
   1 < length [Fin 1, Fin 3] \<and>
   reads_as ([''BENEFIT'', CHR 0xA0 # ''CoSt ''] ! 1) ''cost'' \<and>
   (\<exists>e. negate_costs 0 [''BENEFIT'', CHR 0xA0 # ''CoSt ''] (normalize_weights [Fin 1, Fin 3]) = Inr e \<and>
     length e = length [Fin 1, Fin 3] \<and>
     e ! 1 = np_neg (normalize_weights [Fin 1, Fin 3] ! 1) \<and>
     e ! 1 = Fin (- (3 / 4)))"
proof -
  have h1: "length [''BENEFIT'', CHR 0xA0 # ''CoSt ''] = length [Fin 1, Fin 3]" by simp
  have h2: "1 < length [Fin 1, Fin 3]" by simp
  have h3: "reads_as ([''BENEFIT'', CHR 0xA0 # ''CoSt ''] ! 1) ''cost''"
    unfolding reads_as_def
    by (rule exI [of _ "[CHR 0xA0]"], rule exI [of _ "''CoSt''"], rule exI [of _ "'' ''"])
      (simp add: white_space_def same_letter_def)
  have nw: "normalize_weights [Fin 1, Fin 3] = [Fin (1 / 4), Fin (3 / 4)]"
    by (simp add: normalize_weights_def atol_def rtol_def)
  from exponent_sign [OF h1 h2] obtain e where
    e: "negate_costs 0 [''BENEFIT'', CHR 0xA0 # ''CoSt ''] (normalize_weights [Fin 1, Fin 3]) = Inr e"
      "length e = length [Fin 1, Fin 3]"
      "reads_as ([''BENEFIT'', CHR 0xA0 # ''CoSt ''] ! 1) ''cost'' \<longrightarrow>
         e ! 1 = np_neg (normalize_weights [Fin 1, Fin 3] ! 1)"
    by blast
  have e1: "e ! 1 = np_neg (normalize_weights [Fin 1, Fin 3] ! 1)"
    using e(3) h3 by (rule mp)
  have e2: "e ! 1 = Fin (- (3 / 4))"
    unfolding e1 nw by simp
  show ?thesis
    by (intro conjI h1 h2 h3 exI [of _ e] e(1) e(2) e1 e2)
qed

subsection \<open>C4: invalid values\<close>

text \<open>
  C4 says that the routine raises an \<^verbatim>\<open>InvalidValueError\<close> for an entry that is not
  positive, for a negative weight and for a label that is neither \<^verbatim>\<open>benefit\<close> nor
  \<^verbatim>\<open>cost\<close>, and returns no result for a matrix with a zero entry. The source checks
  none of these and has no \<^verbatim>\<open>raise\<close>: on a matrix with a zero entry, a negative weight
  and the label \<^verbatim>\<open>neither\<close> it returns a table.
\<close>

theorem invalid_values_counterexample:
  "weighted_product insertion_argsort [[Fin 0, Fin 1], [Fin 1, Fin 1]] [Fin 2, Fin (- 1)]
     [''benefit'', ''neither''] [''A'', ''B''] [] =
   Inr [\<lparr>Alternatif = ''B'', Nilai_S = Fin 1, Nilai_V = Fin 1\<rparr>,
        \<lparr>Alternatif = ''A'', Nilai_S = Fin 0, Nilai_V = Fin 0\<rparr>]"
  by (simp add: run_simps not_is_cost_benefit not_is_cost_neither)

text \<open>
  C4, amended. The routine validates no value and raises no \<^verbatim>\<open>InvalidValueError\<close>: for a
  matrix with at least one row, one weight and one label for every column and one name
  for every row, whatever the entries, the weights and the labels are, it returns a table
  with one row for every alternative. The exponent of a criterion is the negated weight
  when the label reads \<^verbatim>\<open>cost\<close> and the weight for every other label.
\<close>

theorem no_value_validation:
  assumes "X \<noteq> []" and "\<forall>row \<in> set X. length row = length weights"
    and "length criteria_type = length weights" and "length alternatives = length X"
    and "argsort_ok argsort"
  shows "\<exists>e out.
     negate_costs 0 criteria_type (normalize_weights weights) = Inr e \<and>
     (\<forall>j<length weights. e ! j =
        (if is_cost (criteria_type ! j) then np_neg (normalize_weights weights ! j)
         else normalize_weights weights ! j)) \<and>
     weighted_product argsort X weights criteria_type alternatives criteria = Inr out \<and>
     length out = length X"
proof -
  from wp_scores_shapes [OF assms(1,2,3)] obtain e where
    e: "negate_costs 0 criteria_type (normalize_weights weights) = Inr e"
    and nth: "\<forall>j<length weights. e ! j =
        (if is_cost (criteria_type ! j) then np_neg (normalize_weights weights ! j)
         else normalize_weights weights ! j)"
    and sc: "wp_scores X weights criteria_type =
       Inr (map (\<lambda>row. np_prod (map2 np_pow row e)) X,
            preference_scores (map (\<lambda>row. np_prod (map2 np_pow row e)) X))"
    by blast
  from weighted_product_of_scores [OF sc _ assms(5), of alternatives criteria] assms(4)
  obtain out where "weighted_product argsort X weights criteria_type alternatives criteria = Inr out"
    "length out = length X" by auto
  then show ?thesis using e nth by blast
qed

theorem no_value_validation_witness:
  "[[Fin 0, Fin 1], [Fin 1, Fin 1]] \<noteq> [] \<and>
   length [''benefit'', ''neither''] = length [Fin 2, Fin (- 1)] \<and>
   length [''A'', ''B''] = length [[Fin 0, Fin 1], [Fin 1, Fin 1]] \<and>
   argsort_ok insertion_argsort \<and>
   (\<exists>e out.
     negate_costs 0 [''benefit'', ''neither''] (normalize_weights [Fin 2, Fin (- 1)]) = Inr e \<and>
     (\<forall>j<length [Fin 2, Fin (- 1)]. e ! j =
        (if is_cost ([''benefit'', ''neither''] ! j)
         then np_neg (normalize_weights [Fin 2, Fin (- 1)] ! j)
         else normalize_weights [Fin 2, Fin (- 1)] ! j)) \<and>
     weighted_product insertion_argsort [[Fin 0, Fin 1], [Fin 1, Fin 1]] [Fin 2, Fin (- 1)]
       [''benefit'', ''neither''] [''A'', ''B''] [] = Inr out \<and>
     length out = length [[Fin 0, Fin 1], [Fin 1, Fin 1]])"
proof -
  have h1: "[[Fin 0, Fin 1], [Fin 1, Fin 1]] \<noteq> []" by simp
  have h2: "\<forall>row \<in> set [[Fin 0, Fin 1], [Fin 1, Fin 1]]. length row = length [Fin 2, Fin (- 1)]"
    by simp
  have h3: "length [''benefit'', ''neither''] = length [Fin 2, Fin (- 1)]" by simp
  have h4: "length [''A'', ''B''] = length [[Fin 0, Fin 1], [Fin 1, Fin 1]]" by simp
  show ?thesis
    by (intro conjI h1 h3 h4 argsort_ok_insertion
        no_value_validation [OF h1 h2 h3 h4 argsort_ok_insertion])
qed

subsection \<open>C5: weights that are all zero\<close>

text \<open>
  C5 says that the routine raises a \<^verbatim>\<open>ZeroWeightSumError\<close> and returns no result when
  every weight is zero. On the weights 0 and 0 the source divides by their sum (line 25)
  and returns a table of NaN scores.
\<close>

theorem zero_weights_counterexample:
  "weighted_product insertion_argsort [[Fin 80, Fin 70], [Fin 60, Fin 90]] [Fin 0, Fin 0]
     [''benefit'', ''cost''] [''A'', ''B''] [] =
   Inr [\<lparr>Alternatif = ''A'', Nilai_S = NaN, Nilai_V = NaN\<rparr>,
        \<lparr>Alternatif = ''B'', Nilai_S = NaN, Nilai_V = NaN\<rparr>]"
  by (simp add: run_simps not_is_cost_benefit is_cost_cost)

text \<open>
  C5, amended. When every weight is zero the routine raises no error: the sum of the
  weights is zero, line 25 divides the weights by it, every normalized weight is NaN, and
  for arguments of fitting shapes a table with one row for every alternative is returned.
\<close>

theorem zero_weights_divided:
  assumes "X \<noteq> []" and "\<forall>row \<in> set X. length row = length weights"
    and "length criteria_type = length weights" and "length alternatives = length X"
    and "argsort_ok argsort" and "\<forall>x \<in> set weights. x = Fin 0"
  shows "np_sum weights = Fin 0 \<and>
     normalize_weights weights = map (\<lambda>x. NaN) weights \<and>
     (\<exists>out. weighted_product argsort X weights criteria_type alternatives criteria = Inr out \<and>
        length out = length X)"
proof -
  have sum: "np_sum weights = Fin 0"
    using assms(6) by (induction weights) simp_all
  have "np_div x (Fin 0) = NaN" if "x \<in> set weights" for x
  proof -
    have "x = Fin 0" using assms(6) that by blast
    then show ?thesis by (simp add: inf_of_sign_def)
  qed
  then have "map (\<lambda>x. np_div x (Fin 0)) weights = map (\<lambda>x. NaN) weights"
    by (intro map_cong) simp_all
  then have norm: "normalize_weights weights = map (\<lambda>x. NaN) weights"
    by (simp add: normalize_weights_def sum atol_def rtol_def)
  from wp_scores_shapes [OF assms(1,2,3)] obtain e where
    sc: "wp_scores X weights criteria_type =
       Inr (map (\<lambda>row. np_prod (map2 np_pow row e)) X,
            preference_scores (map (\<lambda>row. np_prod (map2 np_pow row e)) X))"
    by blast
  from weighted_product_of_scores [OF sc _ assms(5), of alternatives criteria] assms(4)
  obtain out where "weighted_product argsort X weights criteria_type alternatives criteria = Inr out"
    "length out = length X" by auto
  then show ?thesis using sum norm by blast
qed

theorem zero_weights_divided_witness:
  "[[Fin 80, Fin 70], [Fin 60, Fin 90]] \<noteq> [] \<and>
   length [''benefit'', ''cost''] = length [Fin 0, Fin 0] \<and>
   length [''A'', ''B''] = length [[Fin 80, Fin 70], [Fin 60, Fin 90]] \<and>
   argsort_ok insertion_argsort \<and>
   np_sum [Fin 0, Fin 0] = Fin 0 \<and>
   normalize_weights [Fin 0, Fin 0] = map (\<lambda>x. NaN) [Fin 0, Fin 0] \<and>
   (\<exists>out. weighted_product insertion_argsort [[Fin 80, Fin 70], [Fin 60, Fin 90]] [Fin 0, Fin 0]
        [''benefit'', ''cost''] [''A'', ''B''] [] = Inr out \<and>
      length out = length [[Fin 80, Fin 70], [Fin 60, Fin 90]])"
proof -
  have h1: "[[Fin 80, Fin 70], [Fin 60, Fin 90]] \<noteq> []" by simp
  have h2: "\<forall>row \<in> set [[Fin 80, Fin 70], [Fin 60, Fin 90]]. length row = length [Fin 0, Fin 0]"
    by simp
  have h3: "length [''benefit'', ''cost''] = length [Fin 0, Fin 0]" by simp
  have h4: "length [''A'', ''B''] = length [[Fin 80, Fin 70], [Fin 60, Fin 90]]" by simp
  have h6: "\<forall>x \<in> set [Fin 0, Fin 0]. x = Fin 0" by simp
  note r = zero_weights_divided [OF h1 h2 h3 h4 argsort_ok_insertion h6]
  show ?thesis
    by (intro conjI h1 h3 h4 argsort_ok_insertion r [THEN conjunct1]
        r [THEN conjunct2, THEN conjunct1] r [THEN conjunct2, THEN conjunct2])
qed

subsection \<open>C6: a total raw score of zero\<close>

text \<open>
  C6 says that the routine signals a \<^verbatim>\<open>DegenerateResultError\<close> when the total raw score
  is zero. The source divides by the total with no test (line 38): for the matrix with the
  one entry 0 it returns the preference score NaN.
\<close>

theorem zero_total_counterexample:
  "weighted_product insertion_argsort [[Fin 0]] [Fin 1] [''benefit''] [''A''] [] =
   Inr [\<lparr>Alternatif = ''A'', Nilai_S = Fin 0, Nilai_V = NaN\<rparr>]"
  by (simp add: run_simps not_is_cost_benefit)

text \<open>
  C6, amended. When the total raw score is zero the routine raises no error: it divides
  every raw score by zero, so that the preference score is NaN where the raw score is
  zero, positive infinity where it is positive and negative infinity where it is
  negative, and the table is returned.
\<close>

theorem zero_total_divided:
  assumes "wp_scores X weights criteria_type = Inr (S, V)" and "np_sum S = Fin 0"
    and "length alternatives = length S" and "argsort_ok argsort"
  shows "(\<forall>i<length S. \<exists>a. S ! i = Fin a \<and>
            V ! i = (if a = 0 then NaN else if 0 < a then PInf else NInf)) \<and>
         (\<exists>out. weighted_product argsort X weights criteria_type alternatives criteria = Inr out \<and>
            length out = length S)"
proof -
  have V: "V = preference_scores S"
    using assms(1) by (auto simp: wp_scores_def split: sum.splits)
  have "\<exists>a. S ! i = Fin a \<and> V ! i = (if a = 0 then NaN else if 0 < a then PInf else NInf)"
    if "i < length S" for i
  proof -
    have "S ! i \<in> set S" using that by simp
    then obtain a where a: "S ! i = Fin a" using np_sum_Fin_elems [OF assms(2)] by blast
    have "V ! i = np_div (S ! i) (Fin 0)"
      using that by (simp add: V preference_scores_def assms(2))
    then show ?thesis using a by (simp add: inf_of_sign_def)
  qed
  moreover have "\<exists>out. weighted_product argsort X weights criteria_type alternatives criteria =
      Inr out \<and> length out = length S"
    using assms(1,3,4) by (rule weighted_product_of_scores)
  ultimately show ?thesis by blast
qed

theorem zero_total_divided_witness:
  "wp_scores [[Fin 0], [Fin 0]] [Fin 1] [''benefit''] = Inr ([Fin 0, Fin 0], [NaN, NaN]) \<and>
   np_sum [Fin 0, Fin 0] = Fin 0 \<and> length [''A'', ''B''] = length [Fin 0, Fin 0] \<and>
   argsort_ok insertion_argsort \<and>
   (\<exists>a. [Fin 0, Fin 0] ! 1 = Fin a \<and>
        [NaN, NaN] ! 1 = (if a = 0 then NaN else if 0 < a then PInf else NInf)) \<and>
   (\<exists>out. weighted_product insertion_argsort [[Fin 0], [Fin 0]] [Fin 1] [''benefit'']
        [''A'', ''B''] [] = Inr out \<and>
      length out = length [Fin 0, Fin 0])"
proof -
  have h1: "wp_scores [[Fin 0], [Fin 0]] [Fin 1] [''benefit''] = Inr ([Fin 0, Fin 0], [NaN, NaN])"
    by (simp add: run_simps not_is_cost_benefit)
  have h2: "np_sum [Fin 0, Fin 0] = Fin 0" by simp
  have h3: "length [''A'', ''B''] = length [Fin 0, Fin 0]" by simp
  note r = zero_total_divided [OF h1 h2 h3 argsort_ok_insertion]
  have "1 < length [Fin 0, Fin 0]" by simp
  with r [THEN conjunct1] have at1: "\<exists>a. [Fin 0, Fin 0] ! 1 = Fin a \<and>
        [NaN, NaN] ! 1 = (if a = 0 then NaN else if 0 < a then PInf else NInf)"
    by blast
  show ?thesis
    by (intro conjI h1 h2 h3 argsort_ok_insertion at1 r [THEN conjunct2])
qed

subsection \<open>C7: the order of the result\<close>

text \<open>
  C7 says that alternatives with equal preference scores keep their input order whatever
  sorting algorithm is chosen. The source sorts with \<^verbatim>\<open>sort_values\<close> and its default
  \<^verbatim>\<open>kind\<close>, quicksort, which pandas documents as not stable; it asks for no stable
  \<^verbatim>\<open>kind\<close>. With the sorting network, the four rows \<^verbatim>\<open>A\<close>, \<^verbatim>\<open>B\<close>, \<^verbatim>\<open>C\<close>, \<^verbatim>\<open>D\<close> of
  the one-column matrix 1, 1, 2, 2 have the preference scores 1/6, 1/6, 1/3, 1/3 and are
  returned as \<^verbatim>\<open>D\<close>, \<^verbatim>\<open>C\<close>, \<^verbatim>\<open>B\<close>, \<^verbatim>\<open>A\<close>: both pairs of equal rows come out against
  their input order.
\<close>

theorem tie_order_counterexample:
  "valid_input [[1], [1], [2], [2]] [1] [''benefit''] [''A'', ''B'', ''C'', ''D''] \<and>
   weighted_product network_argsort [[Fin 1], [Fin 1], [Fin 2], [Fin 2]] [Fin 1] [''benefit'']
       [''A'', ''B'', ''C'', ''D''] [] =
     Inr [\<lparr>Alternatif = ''D'', Nilai_S = Fin 2, Nilai_V = Fin (1 / 3)\<rparr>,
          \<lparr>Alternatif = ''C'', Nilai_S = Fin 2, Nilai_V = Fin (1 / 3)\<rparr>,
          \<lparr>Alternatif = ''B'', Nilai_S = Fin 1, Nilai_V = Fin (1 / 6)\<rparr>,
          \<lparr>Alternatif = ''A'', Nilai_S = Fin 1, Nilai_V = Fin (1 / 6)\<rparr>]"
proof (intro conjI)
  show "valid_input [[1], [1], [2], [2]] [1] [''benefit''] [''A'', ''B'', ''C'', ''D'']"
    by (simp add: valid_input_def label_known_benefit)
  have sc: "wp_scores [[Fin 1], [Fin 1], [Fin 2], [Fin 2]] [Fin 1] [''benefit''] =
      Inr ([Fin 1, Fin 1, Fin 2, Fin 2], [Fin (1 / 6), Fin (1 / 6), Fin (1 / 3), Fin (1 / 3)])"
    by (simp add: wp_scores_def np_array_def rectangular_def normalize_weights_def atol_def
        rtol_def not_is_cost_benefit pow_broadcast_def prod_axis1_def fin_pow_def
        preference_scores_def)
  have na: "network_argsort [Fin (1 / 3), Fin (1 / 3), Fin (1 / 6), Fin (1 / 6)] = [3, 2, 1, 0]"
    by (simp add: network_argsort_def network4_def compare_exchange_def upt_rec)
  have nd: "nargsort_desc network_argsort [Fin (1 / 6), Fin (1 / 6), Fin (1 / 3), Fin (1 / 3)] =
      [3, 2, 1, 0]"
    by (simp add: nargsort_desc_def na upt_rec)
  show "weighted_product network_argsort [[Fin 1], [Fin 1], [Fin 2], [Fin 2]] [Fin 1] [''benefit'']
       [''A'', ''B'', ''C'', ''D''] [] =
     Inr [\<lparr>Alternatif = ''D'', Nilai_S = Fin 2, Nilai_V = Fin (1 / 3)\<rparr>,
          \<lparr>Alternatif = ''C'', Nilai_S = Fin 2, Nilai_V = Fin (1 / 3)\<rparr>,
          \<lparr>Alternatif = ''B'', Nilai_S = Fin 1, Nilai_V = Fin (1 / 6)\<rparr>,
          \<lparr>Alternatif = ''A'', Nilai_S = Fin 1, Nilai_V = Fin (1 / 6)\<rparr>]"
    by (simp add: weighted_product_def sc data_frame_def sort_values_def nd)
qed

text \<open>
  C7, amended. For every valid input and every correct \<^verbatim>\<open>argsort\<close> the returned rows are
  the rows of the alternatives, each once, in descending order of the preference score;
  two alternatives with equal preference scores appear in their input order when the
  \<^verbatim>\<open>argsort\<close> that \<^verbatim>\<open>sort_values\<close> uses is stable.
\<close>

theorem sorted_by_preference:
  assumes "valid_input X w criteria_type alternatives" and "argsort_ok argsort"
  shows "\<exists>S V idx.
     wp_scores (map (map Fin) X) (map Fin w) criteria_type = Inr (map Fin S, map Fin V) \<and>
     weighted_product argsort (map (map Fin) X) (map Fin w) criteria_type alternatives criteria =
       Inr (map (\<lambda>i. \<lparr>Alternatif = alternatives ! i, Nilai_S = Fin (S ! i),
                      Nilai_V = Fin (V ! i)\<rparr>) idx) \<and>
     length idx = length X \<and> distinct idx \<and> set idx = {..<length X} \<and>
     (\<forall>a b. a < b \<and> b < length X \<longrightarrow> V ! (idx ! b) \<le> V ! (idx ! a)) \<and>
     (argsort_stable argsort \<longrightarrow>
        (\<forall>a b. a < b \<and> b < length X \<and> V ! (idx ! a) = V ! (idx ! b) \<longrightarrow> idx ! a < idx ! b))"
proof -
  let ?S = "raw_scores_real X (exponents_real w criteria_type)"
  let ?V = "preferences_real ?S"
  let ?idx = "nargsort_desc argsort (map Fin ?V)"
  note r = weighted_product_valid [OF assms]
  have sc: "wp_scores (map (map Fin) X) (map Fin w) criteria_type = Inr (map Fin ?S, map Fin ?V)"
    using assms(1) by (rule wp_scores_valid)
  show ?thesis
  proof (rule exI [of _ ?S], rule exI [of _ ?V], rule exI [of _ ?idx], intro conjI impI)
    show "wp_scores (map (map Fin) X) (map Fin w) criteria_type = Inr (map Fin ?S, map Fin ?V)"
      by (rule sc)
    show "weighted_product argsort (map (map Fin) X) (map Fin w) criteria_type alternatives criteria =
       Inr (map (\<lambda>i. \<lparr>Alternatif = alternatives ! i, Nilai_S = Fin (?S ! i),
                      Nilai_V = Fin (?V ! i)\<rparr>) ?idx)"
      by (rule r(1))
    show "length ?idx = length X" by (rule r(2))
    show "distinct ?idx" by (rule r(3))
    show "set ?idx = {..<length X}" by (rule r(4))
    show "\<forall>a b. a < b \<and> b < length X \<longrightarrow> ?V ! (?idx ! b) \<le> ?V ! (?idx ! a)" by (rule r(5))
    show "\<forall>a b. a < b \<and> b < length X \<and> ?V ! (?idx ! a) = ?V ! (?idx ! b) \<longrightarrow> ?idx ! a < ?idx ! b"
      if "argsort_stable argsort" using that by (rule r(6))
  qed
qed

theorem sorted_by_preference_witness:
  "valid_input [[1], [1]] [1] [''benefit''] [''A'', ''B''] \<and>
   argsort_ok insertion_argsort \<and> argsort_stable insertion_argsort \<and>
   (\<exists>S V idx.
     wp_scores (map (map Fin) [[1], [1]]) (map Fin [1]) [''benefit''] =
       Inr (map Fin S, map Fin V) \<and>
     weighted_product insertion_argsort (map (map Fin) [[1], [1]]) (map Fin [1]) [''benefit'']
         [''A'', ''B''] [] =
       Inr (map (\<lambda>i. \<lparr>Alternatif = [''A'', ''B''] ! i, Nilai_S = Fin (S ! i),
                      Nilai_V = Fin (V ! i)\<rparr>) idx) \<and>
     length idx = length [[1], [1 :: real]] \<and> distinct idx \<and>
     set idx = {..<length [[1], [1 :: real]]} \<and>
     (\<forall>a b. a < b \<and> b < length [[1], [1 :: real]] \<longrightarrow> V ! (idx ! b) \<le> V ! (idx ! a)) \<and>
     (argsort_stable insertion_argsort \<longrightarrow>
        (\<forall>a b. a < b \<and> b < length [[1], [1 :: real]] \<and> V ! (idx ! a) = V ! (idx ! b) \<longrightarrow>
           idx ! a < idx ! b)))"
proof -
  have h: "valid_input [[1], [1]] [1] [''benefit''] [''A'', ''B'']"
    by (simp add: valid_input_def label_known_benefit)
  show ?thesis
    by (intro conjI h argsort_ok_insertion argsort_stable_insertion
        sorted_by_preference [OF h argsort_ok_insertion])
qed

subsection \<open>C8: the normalization of the weights\<close>

text \<open>
  C8 says that the weights are always divided by their sum, so that the weights used sum
  to 1 within a tolerance such as \<open>10\<^sup>-\<^sup>9\<close>. The routine skips the division when
  \<^verbatim>\<open>np.isclose\<close> finds the sum close to 1 (line 24): the weights 0.5 and 0.500001 are
  used as they are, and their sum differs from 1 by \<open>10\<^sup>-\<^sup>6\<close>.
\<close>

theorem normalization_skipped_counterexample:
  "normalize_weights [Fin (1 / 2), Fin (500001 / 1000000)] =
     [Fin (1 / 2), Fin (500001 / 1000000)] \<and>
   normalize_weights [Fin (1 / 2), Fin (500001 / 1000000)] \<noteq>
     map (\<lambda>x. np_div x (np_sum [Fin (1 / 2), Fin (500001 / 1000000)]))
       [Fin (1 / 2), Fin (500001 / 1000000)] \<and>
   np_sum (normalize_weights [Fin (1 / 2), Fin (500001 / 1000000)]) = Fin (1000001 / 1000000) \<and>
   \<not> \<bar>1000001 / 1000000 - 1 :: real\<bar> \<le> 1 / 10 ^ 9"
  by (simp add: normalize_weights_def atol_def rtol_def)

text \<open>
  C8, amended. For every weight vector with a positive sum the weights are divided by
  their sum unless the sum \<open>s\<close> is close to 1 in the sense of \<^verbatim>\<open>np.isclose\<close>, that is
  \<open>\<bar>s - 1\<bar> \<le> atol + rtol\<close>, in which case they are used unchanged. The weights used sum
  to exactly 1 in the first case and to \<open>s\<close> in the second, so always to 1 within
  \<open>1.001 \<times> 10\<^sup>-\<^sup>5\<close>, and normalizing the result again does not change it.
\<close>

theorem normalize_weights_unless_close:
  assumes "0 < sum_list w"
  shows "normalize_weights (map Fin w) =
           map Fin (if \<bar>sum_list w - 1\<bar> \<le> atol + rtol * 1 then w
                    else map (\<lambda>x. x / sum_list w) w) \<and>
         (\<exists>s. np_sum (normalize_weights (map Fin w)) = Fin s \<and>
              (if \<bar>sum_list w - 1\<bar> \<le> atol + rtol * 1 then s = sum_list w else s = 1) \<and>
              \<bar>s - 1\<bar> \<le> 1001 / 10 ^ 8) \<and>
         normalize_weights (normalize_weights (map Fin w)) = normalize_weights (map Fin w)"
proof -
  let ?w' = "if \<bar>sum_list w - 1\<bar> \<le> atol + rtol * 1 then w else map (\<lambda>x. x / sum_list w) w"
  have nz: "sum_list w \<noteq> 0" using assms by simp
  have eq: "normalize_weights (map Fin w) = map Fin ?w'"
    using nz by (rule normalize_weights_Fin)
  have sum': "sum_list ?w' = (if \<bar>sum_list w - 1\<bar> \<le> atol + rtol * 1 then sum_list w else 1)"
    using nz by (simp add: sum_list_divide_real)
  have close: "\<bar>sum_list ?w' - 1\<bar> \<le> atol + rtol * 1"
    unfolding sum' by (simp add: atol_def rtol_def)
  have tol: "atol + rtol * 1 = 1001 / 10 ^ 8" by (simp add: atol_def rtol_def)
  have s: "np_sum (normalize_weights (map Fin w)) = Fin (sum_list ?w')"
    unfolding eq by (rule np_sum_Fin)
  have idem: "normalize_weights (map Fin ?w') = map Fin ?w'"
    unfolding normalize_weights_def np_sum_Fin np_isclose_one using close by simp
  show ?thesis
    unfolding s unfolding eq idem using sum' close tol by auto
qed

theorem normalize_weights_unless_close_witness:
  "0 < sum_list [1, 3 :: real] \<and>
   normalize_weights (map Fin [1, 3]) =
           map Fin (if \<bar>sum_list [1, 3 :: real] - 1\<bar> \<le> atol + rtol * 1 then [1, 3]
                    else map (\<lambda>x. x / sum_list [1, 3]) [1, 3]) \<and>
         (\<exists>s. np_sum (normalize_weights (map Fin [1, 3])) = Fin s \<and>
              (if \<bar>sum_list [1, 3 :: real] - 1\<bar> \<le> atol + rtol * 1 then s = sum_list [1, 3] else s = 1) \<and>
              \<bar>s - 1\<bar> \<le> 1001 / 10 ^ 8) \<and>
         normalize_weights (normalize_weights (map Fin [1, 3])) = normalize_weights (map Fin [1, 3])"
proof -
  have h: "0 < sum_list [1, 3 :: real]" by simp
  show ?thesis
    by (rule conjI [OF h normalize_weights_unless_close [OF h]])
qed

subsection \<open>C9: monotonicity\<close>




subsection \<open>C10: rescaling a column\<close>

text \<open>
  C10. For every valid input, every column \<open>j\<close> and every constant \<open>c > 0\<close>, multiplying
  the entries of column \<open>j\<close> by \<open>c\<close> multiplies every raw score by \<open>c\<close> to the power
  \<open>e\<^sub>j\<close> and leaves every preference score as it is; the returned tables list the
  alternatives in the same order with the same preference scores.
\<close>

theorem column_scaling_invariant:
  assumes "valid_input X w criteria_type alternatives" and "argsort_ok argsort"
    and "0 < c" and "j < length w"
  shows "\<exists>e S V out out'.
     negate_costs 0 criteria_type (normalize_weights (map Fin w)) = Inr (map Fin e) \<and>
     wp_scores (map (map Fin) X) (map Fin w) criteria_type = Inr (map Fin S, map Fin V) \<and>
     wp_scores (map (map Fin) (map (\<lambda>row. row[j := c * row ! j]) X)) (map Fin w) criteria_type =
       Inr (map Fin (map (\<lambda>s. c powr (e ! j) * s) S), map Fin V) \<and>
     weighted_product argsort (map (map Fin) X) (map Fin w) criteria_type alternatives criteria =
       Inr out \<and>
     weighted_product argsort (map (map Fin) (map (\<lambda>row. row[j := c * row ! j]) X)) (map Fin w)
       criteria_type alternatives criteria = Inr out' \<and>
     map Alternatif out' = map Alternatif out \<and> map Nilai_V out' = map Nilai_V out"
proof -
  let ?X' = "map (\<lambda>row. row[j := c * row ! j]) X"
  let ?e = "exponents_real w criteria_type"
  let ?S = "raw_scores_real X ?e"
  let ?S' = "raw_scores_real ?X' ?e"
  let ?V = "preferences_real ?S"
  let ?idx = "nargsort_desc argsort (map Fin ?V)"
  let ?out = "map (\<lambda>i. \<lparr>Alternatif = alternatives ! i, Nilai_S = Fin (?S ! i),
                         Nilai_V = Fin (?V ! i)\<rparr>) ?idx"
  let ?out' = "map (\<lambda>i. \<lparr>Alternatif = alternatives ! i, Nilai_S = Fin (?S' ! i),
                          Nilai_V = Fin (?V ! i)\<rparr>) ?idx"
  note v = assms(1) and ok = assms(2)
  have v': "valid_input ?X' w criteria_type alternatives"
    using v assms(3) by (rule valid_input_scaled)
  have len: "length criteria_type = length w" and sum: "0 < sum_list w"
    using v by (simp_all add: valid_input_def)
  have e: "negate_costs 0 criteria_type (normalize_weights (map Fin w)) = Inr (map Fin ?e)"
    using sum len by (simp add: exponents_valid)
  have S': "?S' = map (\<lambda>s. c powr (?e ! j) * s) ?S"
    using v assms(3,4) len by (intro raw_scores_real_scaled) (simp_all add: length_exponents_real)
  have "c powr (?e ! j) \<noteq> 0" using assms(3) by simp
  then have V': "preferences_real ?S' = ?V"
    unfolding S' by (rule preferences_real_scale)
  have sc: "wp_scores (map (map Fin) X) (map Fin w) criteria_type = Inr (map Fin ?S, map Fin ?V)"
    using v by (rule wp_scores_valid)
  have sc': "wp_scores (map (map Fin) ?X') (map Fin w) criteria_type =
      Inr (map Fin (map (\<lambda>s. c powr (?e ! j) * s) ?S), map Fin ?V)"
    using wp_scores_valid [OF v'] unfolding V' unfolding S' .
  have out: "weighted_product argsort (map (map Fin) X) (map Fin w) criteria_type alternatives
      criteria = Inr ?out"
    using v ok by (rule weighted_product_valid(1))
  have out': "weighted_product argsort (map (map Fin) ?X') (map Fin w) criteria_type alternatives
      criteria = Inr ?out'"
    using weighted_product_valid(1) [OF v' ok, of criteria] unfolding V' .
  have alt: "map Alternatif ?out' = map Alternatif ?out" by simp
  have pref: "map Nilai_V ?out' = map Nilai_V ?out" by simp
  show ?thesis
    using e sc sc' out out' alt pref by blast
qed

theorem column_scaling_invariant_witness:
  "valid_input [[4, 2], [1, 8]] [1, 3] [''benefit'', ''cost''] [''A'', ''B''] \<and>
   argsort_ok insertion_argsort \<and> (0 :: real) < 10 \<and> 1 < length [1, 3 :: real] \<and>
   (\<exists>e S V out out'.
     negate_costs 0 [''benefit'', ''cost''] (normalize_weights (map Fin [1, 3])) =
       Inr (map Fin e) \<and>
     wp_scores (map (map Fin) [[4, 2], [1, 8]]) (map Fin [1, 3]) [''benefit'', ''cost''] =
       Inr (map Fin S, map Fin V) \<and>
     wp_scores (map (map Fin) (map (\<lambda>row. row[1 := 10 * row ! 1]) [[4, 2], [1, 8]]))
         (map Fin [1, 3]) [''benefit'', ''cost''] =
       Inr (map Fin (map (\<lambda>s. 10 powr (e ! 1) * s) S), map Fin V) \<and>
     weighted_product insertion_argsort (map (map Fin) [[4, 2], [1, 8]]) (map Fin [1, 3])
         [''benefit'', ''cost''] [''A'', ''B''] [] = Inr out \<and>
     weighted_product insertion_argsort
         (map (map Fin) (map (\<lambda>row. row[1 := 10 * row ! 1]) [[4, 2], [1, 8]])) (map Fin [1, 3])
         [''benefit'', ''cost''] [''A'', ''B''] [] = Inr out' \<and>
     map Alternatif out' = map Alternatif out \<and> map Nilai_V out' = map Nilai_V out)"
proof -
  have h1: "valid_input [[4, 2], [1, 8]] [1, 3] [''benefit'', ''cost''] [''A'', ''B'']"
    by (simp add: valid_input_def label_known_benefit label_known_cost)
  have h3: "(0 :: real) < 10" by simp
  have h4: "1 < length [1, 3 :: real]" by simp
  show ?thesis
    by (intro conjI h1 h3 h4 argsort_ok_insertion
        column_scaling_invariant [OF h1 argsort_ok_insertion h3 h4])
qed

end
